theory Spec2Isabelle
  imports Main "HOL-Library.Sublist"
begin

section \<open>JavaScript strings\<close>

text \<open>
  Strings are ASCII text, a \<^typ>\<open>string\<close>. The white space of \<^verbatim>\<open>String.prototype.trim\<close>
  is taken in its ASCII part: tab, line feed, vertical tab, form feed, carriage return
  and space.
\<close>

definition nl :: char where
  "nl = CHR 0x0A"

definition cr :: char where
  "cr = CHR 0x0D"

definition white :: "char \<Rightarrow> bool" where
  "white c = (c = CHR 0x09 \<or> c = CHR 0x0A \<or> c = CHR 0x0B \<or> c = CHR 0x0C
              \<or> c = CHR 0x0D \<or> c = CHR 0x20)"

definition trim_js :: "string \<Rightarrow> string" where
  "trim_js s = rev (dropWhile white (rev (dropWhile white s)))"

text \<open>\<^verbatim>\<open>s.split(d)\<close> for a one-character separator: never an empty list.\<close>

fun split_js :: "char \<Rightarrow> string \<Rightarrow> string list" where
  "split_js d [] = [[]]"
| "split_js d (c # cs) =
     (if c = d then [] # split_js d cs
      else (case split_js d cs of
              w # ws \<Rightarrow> (c # w) # ws
            | [] \<Rightarrow> [[c]]))"

text \<open>\<^verbatim>\<open>s.includes(p)\<close>: \<open>p\<close> occurs somewhere in \<open>s\<close>.\<close>

fun includes_js :: "string \<Rightarrow> string \<Rightarrow> bool" where
  "includes_js [] p = (p = [])"
| "includes_js (c # cs) p = (prefix p (c # cs) \<or> includes_js cs p)"

text \<open>\<^verbatim>\<open>s.endsWith(p)\<close>.\<close>

definition endsWith :: "string \<Rightarrow> string \<Rightarrow> bool" where
  "endsWith s p = suffix p s"

text \<open>\<^verbatim>\<open>lines.join('\n')\<close>, the inverse of \<^verbatim>\<open>s.split('\n')\<close>.\<close>

fun join_js :: "string list \<Rightarrow> string" where
  "join_js [] = []"
| "join_js [l] = l"
| "join_js (l # l' # ls) = l @ nl # join_js (l' # ls)"

text \<open>What follows a line in the joined text.\<close>

definition after_line :: "string list \<Rightarrow> string" where
  "after_line post = (if post = [] then [] else nl # join_js post)"

section \<open>Log rotation\<close>

text \<open>
  \<^verbatim>\<open>manageLog(logFilePath, maxEntries = 500)\<close>. The log file is \<open>None\<close> when it does
  not exist, else its content. The result is the file afterwards and the flag the
  function returns (\<open>True\<close>: the log was cleared).
\<close>

definition manageLog :: "string option \<Rightarrow> nat \<Rightarrow> string option \<times> bool" where
  "manageLog logFile maxEntries =
     (case logFile of
        None \<Rightarrow> (None, False)
      | Some content \<Rightarrow>
          (let lines = filter (\<lambda>line. trim_js line \<noteq> []) (split_js nl content)
           in if length lines > maxEntries then (Some [], True)
              else (Some content, False)))"

text \<open>A log file made of entries, each written as one line ended by a line feed.\<close>

definition entries :: "string list \<Rightarrow> string" where
  "entries es = concat (map (\<lambda>e. e @ [nl]) es)"

section \<open>Numbers of version components\<close>

text \<open>
  A version string is split at the dots and every part goes through \<^verbatim>\<open>Number\<close>. A
  JavaScript number is an IEEE double. The values that reach the arithmetic and the
  comparisons of the hooks are \<^verbatim>\<open>undefined\<close> (a missing array element),
  \<^verbatim>\<open>NaN\<close>, \<^verbatim>\<open>Infinity\<close> and the doubles that are non-negative integers:
  \<open>Num n\<close> is the double whose value is \<open>n\<close>. Every integer up to \<open>2^53\<close> is a
  double; above, \<open>round_double\<close> gives the nearest one, ties to the even significand,
  and \<^verbatim>\<open>Infinity\<close> from \<open>2^1024 - 2^970\<close> on.
\<close>

datatype jsval = Undefined | NaN | Num nat | Infinity

text \<open>The number of binary digits of a natural number.\<close>

fun bits :: "nat \<Rightarrow> nat" where
  "bits n = (if n = 0 then 0 else Suc (bits (n div 2)))"

declare bits.simps [simp del]

definition round_double :: "nat \<Rightarrow> jsval" where
  "round_double n =
     (if n < 2 ^ 53 then Num n
      else (let e = bits n - 53;
                q = n div 2 ^ e;
                r = n mod 2 ^ e;
                q' = (if 2 ^ e < 2 * r \<or> (2 * r = 2 ^ e \<and> odd q) then q + 1 else q)
            in if 2 ^ 1024 \<le> q' * 2 ^ e then Infinity else Num (q' * 2 ^ e)))"

text \<open>
  The model computes \<^verbatim>\<open>Number\<close> and the printing of a number on a part of their
  domain and says so where it stops: \<open>Uncovered\<close> is the result of a computation that
  depends on a number outside that part. A function that uses such a result is
  \<open>Uncovered\<close> too, so that no statement below speaks of a run the model does not
  compute.
\<close>

datatype 'a modelled = Computed 'a | Uncovered

fun all_computed :: "'a modelled list \<Rightarrow> 'a list modelled" where
  "all_computed [] = Computed []"
| "all_computed (Uncovered # ms) = Uncovered"
| "all_computed (Computed x # ms) =
     (case all_computed ms of
        Computed xs \<Rightarrow> Computed (x # xs)
      | Uncovered \<Rightarrow> Uncovered)"

text \<open>
  \<open>Number_js\<close> covers the strings of decimal digits with white space around them
  (the value is rounded to a double), the empty string (0), and the strings that are no
  numeric literal because of their first character (\<^verbatim>\<open>NaN\<close>). A string that
  starts like a numeric literal of another form (a sign, a dot, a radix prefix, an
  exponent after digits, \<^verbatim>\<open>Infinity\<close>) or holds a character outside ASCII is not
  covered.
\<close>

definition digit :: "char \<Rightarrow> bool" where
  "digit c = (c \<in> set ''0123456789'')"

definition digit_val :: "char \<Rightarrow> nat" where
  "digit_val c = of_char c - 48"

definition decimal :: "string \<Rightarrow> nat" where
  "decimal s = foldl (\<lambda>a c. 10 * a + digit_val c) 0 s"

definition ascii :: "char \<Rightarrow> bool" where
  "ascii c = (of_char c < (128 :: nat))"

definition Number_js :: "string \<Rightarrow> jsval modelled" where
  "Number_js s =
     (if \<not> list_all ascii s then Uncovered
      else (let t = trim_js s
            in if t = [] then Computed (Num 0)
               else if list_all digit t then Computed (round_double (decimal t))
               else if hd t \<in> set ''+-.I0123456789'' then Uncovered
               else Computed NaN))"

text \<open>
  A number inside a template literal. An integer up to \<open>2^53\<close> is printed in decimal;
  the printing of the larger doubles (the shortest digits that give the number back, an
  exponent from \<open>10^21\<close> on) is not covered.
\<close>

definition digit_char :: "nat \<Rightarrow> char" where
  "digit_char d = ''0123456789'' ! d"

fun show_nat :: "nat \<Rightarrow> string" where
  "show_nat n =
     (if n < 10 then [digit_char n]
      else show_nat (n div 10) @ [digit_char (n mod 10)])"

declare show_nat.simps [simp del]

fun toString :: "jsval \<Rightarrow> string modelled" where
  "toString Undefined = Computed ''undefined''"
| "toString NaN = Computed ''NaN''"
| "toString Infinity = Computed ''Infinity''"
| "toString (Num n) = (if n \<le> 2 ^ 53 then Computed (show_nat n) else Uncovered)"

text \<open>The pieces of a template literal with dots between them.\<close>

fun dotted :: "string list \<Rightarrow> string" where
  "dotted [] = []"
| "dotted [s] = s"
| "dotted (s # t # ss) = s @ ''.'' @ dotted (t # ss)"

definition template :: "string modelled list \<Rightarrow> string modelled" where
  "template pieces =
     (case all_computed pieces of
        Computed ss \<Rightarrow> Computed (dotted ss)
      | Uncovered \<Rightarrow> Uncovered)"

text \<open>
  \<^verbatim>\<open>x + 1\<close>, \<^verbatim>\<open>x === y\<close> and \<^verbatim>\<open>x > y\<close> on these values. The sum of two doubles
  is the exact sum, rounded.
\<close>

fun plus_one :: "jsval \<Rightarrow> jsval" where
  "plus_one (Num n) = round_double (n + 1)"
| "plus_one Infinity = Infinity"
| "plus_one _ = NaN"

fun strict_eq :: "jsval \<Rightarrow> jsval \<Rightarrow> bool" where
  "strict_eq (Num a) (Num b) = (a = b)"
| "strict_eq Infinity Infinity = True"
| "strict_eq Undefined Undefined = True"
| "strict_eq _ _ = False"

fun greater :: "jsval \<Rightarrow> jsval \<Rightarrow> bool" where
  "greater (Num a) (Num b) = (a > b)"
| "greater Infinity (Num b) = True"
| "greater _ _ = False"

text \<open>Array destructuring: a missing element is \<^verbatim>\<open>undefined\<close>.\<close>

definition element :: "jsval list \<Rightarrow> nat \<Rightarrow> jsval" where
  "element xs i = (if i < length xs then xs ! i else Undefined)"

text \<open>\<^verbatim>\<open>version.split('.').map(Number)\<close>.\<close>

definition components :: "string \<Rightarrow> jsval list modelled" where
  "components v = all_computed (map Number_js (split_js CHR ''.'' v))"

text \<open>The test \<^verbatim>\<open>/^\d+\.\d+\.\d+$/\<close> of \<open>getCurrentVersion\<close>.\<close>

definition digits :: "string \<Rightarrow> bool" where
  "digits s = (s \<noteq> [] \<and> list_all digit s)"

definition semver :: "string \<Rightarrow> bool" where
  "semver s =
     (case split_js CHR ''.'' s of
        [a, b, c] \<Rightarrow> digits a \<and> digits b \<and> digits c
      | _ \<Rightarrow> False)"


text \<open>
  The semantic version that a string denotes: the string has the form
  \<^verbatim>\<open>\d+\.\d+\.\d+\<close> and its parts, read in decimal, are the three numbers. \<open>fmt v\<close>
  denotes \<open>v\<close>, and so does any string that differs from it in leading zeros only.
\<close>

definition version_of :: "string \<Rightarrow> (nat \<times> nat \<times> nat) option" where
  "version_of s =
     (if semver s
      then (case split_js CHR ''.'' s of
              [a, b, c] \<Rightarrow> Some (decimal a, decimal b, decimal c)
            | _ \<Rightarrow> None)
      else None)"

text \<open>
  \<^verbatim>\<open>Number.MAX_SAFE_INTEGER\<close>, \<open>2^53 - 1\<close>: up to it the doubles are the integers and
  \<^verbatim>\<open>x + 1\<close> is exact.
\<close>

definition max_safe :: nat where
  "max_safe = 9007199254740991"

definition safe :: "nat \<times> nat \<times> nat \<Rightarrow> bool" where
  "safe v = (case v of (major, minor, patch) \<Rightarrow>
     major \<le> max_safe \<and> minor \<le> max_safe \<and> patch \<le> max_safe)"

section \<open>The pre-commit hook\<close>

text \<open>
  A metadata file (\<^verbatim>\<open>package.json\<close>) at one place (the commit \<^verbatim>\<open>HEAD\<close>, the
  index, the working tree) is
  \<^item> absent, or not readable;
  \<^item> blank: empty or white space only;
  \<^item> malformed: \<^verbatim>\<open>JSON.parse\<close> throws;
  \<^item> the JSON value \<^verbatim>\<open>null\<close>;
  \<^item> another JSON value that is not an object with named fields (an array, a number, a
    string, a boolean), given by its text as \<^verbatim>\<open>JSON.stringify(value, null, 2)\<close> prints
    it: reading its \<^verbatim>\<open>version\<close> gives \<^verbatim>\<open>undefined\<close>, and an assignment to its
    \<^verbatim>\<open>version\<close> does not show when the value is printed;
  \<^item> a JSON object, with its \<^verbatim>\<open>version\<close> field: \<open>None\<close> when the object has none,
    else the string. The other fields of the object are carried through a rewrite
    unchanged and are left out. The \<^verbatim>\<open>version\<close> field, when there is one, is a
    string.
\<close>

datatype metafile =
    Absent
  | Blank
  | Malformed
  | JsonNull
  | NonObject string
  | Package "string option"

text \<open>
  What the hook sees of one tracked folder: whether \<^verbatim>\<open>git rev-parse HEAD\<close>
  succeeds, the metadata file at the three places, and the output of
  \<^verbatim>\<open>git diff --cached --name-only -- folder\<close> (\<open>None\<close> when the command fails).
\<close>

record folder =
  head_commit :: bool
  head_file :: metafile
  index_file :: metafile
  work_file :: metafile
  cached_names :: "string option"

text \<open>\<open>None\<close> is the \<^verbatim>\<open>null\<close> of the \<^verbatim>\<open>catch\<close> branch or an \<^verbatim>\<open>undefined\<close> field.\<close>

definition getStagedVersion :: "folder \<Rightarrow> string option" where
  "getStagedVersion f =
     (case index_file f of
        Package version \<Rightarrow> version
      | _ \<Rightarrow> None)"

definition getHeadVersion :: "folder \<Rightarrow> string" where
  "getHeadVersion f =
     (if \<not> head_commit f then ''0.0.0''
      else (case head_file f of
              Absent \<Rightarrow> ''0.0.0''
            | Blank \<Rightarrow> ''0.0.0''
            | Malformed \<Rightarrow> ''0.0.0''
            | JsonNull \<Rightarrow> ''0.0.0''
            | NonObject _ \<Rightarrow> ''0.0.0''
            | Package None \<Rightarrow> ''0.0.0''
            | Package (Some version) \<Rightarrow> (if version = [] then ''0.0.0'' else version)))"

definition hasFolderChanges :: "folder \<Rightarrow> bool" where
  "hasFolderChanges f =
     (case cached_names f of
        None \<Rightarrow> False
      | Some out \<Rightarrow>
          (let changes = trim_js out
           in if changes = [] then False
              else (let changedFiles = filter (\<lambda>l. l \<noteq> []) (split_js nl changes);
                        nonPackageChanges =
                          filter (\<lambda>name. \<not> endsWith name ''package.json'') changedFiles
                    in length nonPackageChanges > 0)))"

text \<open>
  The two rewrites write the value with the new version to the working tree and stage it
  with \<^verbatim>\<open>git add\<close>: afterwards the index holds what the working tree holds. The
  exceptions of the model are those of reading and parsing the file and of using the
  parsed value, which end in \<^verbatim>\<open>return null\<close> with nothing written; writing and
  staging succeed.
\<close>

definition bumpPatchVersion :: "folder \<Rightarrow> (string option \<times> folder) modelled" where
  "bumpPatchVersion f =
     (case work_file f of
        Package (Some version) \<Rightarrow>
          (case components version of
             Uncovered \<Rightarrow> Uncovered
           | Computed parts \<Rightarrow>
               (let major = element parts 0; minor = element parts 1; patch = element parts 2
                in case template [toString major, toString minor, toString (plus_one patch)] of
                     Uncovered \<Rightarrow> Uncovered
                   | Computed newVersion \<Rightarrow>
                       Computed (Some newVersion,
                                 f\<lparr>work_file := Package (Some newVersion),
                                   index_file := Package (Some newVersion)\<rparr>)))
      | _ \<Rightarrow> Computed (None, f))"

definition handleMinorVersionBump ::
  "folder \<Rightarrow> string \<Rightarrow> string \<Rightarrow> (string option \<times> folder) modelled" where
  "handleMinorVersionBump f stagedVersion headVersion =
     (case components headVersion of
        Uncovered \<Rightarrow> Uncovered
      | Computed headParts \<Rightarrow>
          (case components stagedVersion of
             Uncovered \<Rightarrow> Uncovered
           | Computed stagedParts \<Rightarrow>
               (let headMajor = element headParts 0; headMinor = element headParts 1;
                    stagedMajor = element stagedParts 0; stagedMinor = element stagedParts 1
                in if strict_eq stagedMajor headMajor \<and> greater stagedMinor headMinor
                   then (case work_file f of
                           Package _ \<Rightarrow>
                             (case template [toString stagedMajor, toString stagedMinor,
                                             Computed ''0''] of
                                Uncovered \<Rightarrow> Uncovered
                              | Computed newVersion \<Rightarrow>
                                  Computed (Some newVersion,
                                            f\<lparr>work_file := Package (Some newVersion),
                                              index_file := Package (Some newVersion)\<rparr>))
                         | NonObject printed \<Rightarrow>
                             (case template [toString stagedMajor, toString stagedMinor,
                                             Computed ''0''] of
                                Uncovered \<Rightarrow> Uncovered
                              | Computed newVersion \<Rightarrow>
                                  Computed (Some newVersion,
                                            f\<lparr>work_file := NonObject printed,
                                              index_file := NonObject printed\<rparr>))
                         | _ \<Rightarrow> Computed (None, f))
                   else Computed (None, f))))"

definition getCurrentVersion :: "folder \<Rightarrow> string" where
  "getCurrentVersion f =
     (case work_file f of
        Package (Some version) \<Rightarrow>
          (if version = [] then ''0.0.0''
           else if \<not> semver version then ''0.0.0''
           else version)
      | _ \<Rightarrow> ''0.0.0'')"

text \<open>
  One round of the main loop. The outcome names the branch that was taken; the history
  log is the list of its messages, without their time stamps. The debug log is not
  modelled.
\<close>

datatype outcome =
    MinorReset string
  | ManualChange string
  | AutoBumped string
  | BumpFailed
  | NoChange

text \<open>A string in a condition is true when it is not empty; \<^verbatim>\<open>null\<close> is false.\<close>

fun truthy :: "string option \<Rightarrow> bool" where
  "truthy None = False"
| "truthy (Some s) = (s \<noteq> [])"

definition minorBump ::
  "folder \<Rightarrow> string option \<Rightarrow> string \<Rightarrow> (string option \<times> folder) modelled" where
  "minorBump f stagedVersion headVersion =
     (case stagedVersion of
        Some s \<Rightarrow>
          (if s \<noteq> [] \<and> headVersion \<noteq> [] then handleMinorVersionBump f s headVersion
           else Computed (None, f))
      | None \<Rightarrow> Computed (None, f))"

definition processFolder ::
  "string \<Rightarrow> folder \<Rightarrow> string list \<Rightarrow> (outcome \<times> folder \<times> string list) modelled" where
  "processFolder folderName f history =
     (let stagedVersion = getStagedVersion f;
          headVersion = getHeadVersion f;
          folderChangesExist = hasFolderChanges f
      in case minorBump f stagedVersion headVersion of
           Uncovered \<Rightarrow> Uncovered
         | Computed (minorBumpVersion, f1) \<Rightarrow>
             if truthy minorBumpVersion
             then Computed
                    (MinorReset (the minorBumpVersion), f1,
                     history @ [folderName
                                @ '' version: Reset patch to 0 after minor version bump: ''
                                @ the minorBumpVersion])
             else if truthy stagedVersion \<and> headVersion \<noteq> []
                     \<and> stagedVersion \<noteq> Some headVersion
             then Computed
                    (ManualChange (the stagedVersion), f1,
                     history @ [folderName @ '' version manually changed to ''
                                @ the stagedVersion])
             else if folderChangesExist
             then (case bumpPatchVersion f1 of
                     Uncovered \<Rightarrow> Uncovered
                   | Computed (Some newVersion, f2) \<Rightarrow>
                       Computed
                         (AutoBumped newVersion, f2,
                          history @ [folderName @ '' version auto-bumped to '' @ newVersion
                                     @ '' ('' @ folderName @ '' files changed)''])
                   | Computed (None, f2) \<Rightarrow> Computed (BumpFailed, f2, history))
             else Computed
                    (NoChange, f1,
                     history @ [''No '' @ folderName @ '' version change needed (no ''
                                @ folderName @ '' changes detected)'']))"

text \<open>
  The tag version written to the environment file. \<open>replace_tag\<close> is
  \<^verbatim>\<open>envContent.replace(/TAG_VERSION=.*/, r)\<close>: the first occurrence of
  \<^verbatim>\<open>TAG_VERSION=\<close> and what follows it up to the next line terminator become \<open>r\<close>
  (which holds no \<^verbatim>\<open>$\<close>: it is made of digits and dots).
\<close>

definition line_terminator :: "char \<Rightarrow> bool" where
  "line_terminator c = (c = nl \<or> c = cr)"

definition tag_key :: string where
  "tag_key = ''TAG_VERSION=''"

fun replace_tag :: "string \<Rightarrow> string \<Rightarrow> string" where
  "replace_tag [] r = []"
| "replace_tag (c # cs) r =
     (if prefix tag_key (c # cs)
      then r @ dropWhile (\<lambda>x. \<not> line_terminator x) (drop (length tag_key) (c # cs))
      else c # replace_tag cs r)"

definition writeTag :: "string option \<Rightarrow> string \<Rightarrow> string" where
  "writeTag envFile newTagVersion =
     (let envContent = (case envFile of Some content \<Rightarrow> content | None \<Rightarrow> []);
          envContent' =
            (if includes_js envContent tag_key
             then replace_tag envContent (tag_key @ newTagVersion)
             else envContent @ tag_key @ newTagVersion @ [nl])
      in trim_js envContent')"

definition tagVersion :: "string \<Rightarrow> string \<Rightarrow> string modelled" where
  "tagVersion backVersion webVersion =
     (case components backVersion of
        Uncovered \<Rightarrow> Uncovered
      | Computed backParts \<Rightarrow>
          (case components webVersion of
             Uncovered \<Rightarrow> Uncovered
           | Computed webParts \<Rightarrow>
               (let backMinor = element backParts 1; backPatch = element backParts 2;
                    webMinor = element webParts 1; webPatch = element webParts 2
                in template [toString backMinor, toString backPatch,
                             toString webMinor, toString webPatch])))"

text \<open>
  The part of the hook's state that the tag version reads and writes: the two folders,
  the history log, the environment file.
\<close>

record repo =
  web_folder :: folder
  back_folder :: folder
  history :: "string list"
  env_file :: "string option"

definition updateEnvTagVersion :: "repo \<Rightarrow> (string \<times> repo) modelled" where
  "updateEnvTagVersion st =
     (let backVersion = getCurrentVersion (back_folder st);
          webVersion = getCurrentVersion (web_folder st)
      in case tagVersion backVersion webVersion of
           Uncovered \<Rightarrow> Uncovered
         | Computed newTagVersion \<Rightarrow>
             Computed
               (newTagVersion,
                st\<lparr>env_file := Some (writeTag (env_file st) newTagVersion),
                   history := history st
                     @ [''Updated TAG_VERSION to '' @ newTagVersion @ '' (not committed)'']\<rparr>))"

section \<open>The tag publisher\<close>

text \<open>
  \<^verbatim>\<open>envContent.match(/TAG_VERSION=([^\n]+)/)\<close>: the first place where
  \<^verbatim>\<open>TAG_VERSION=\<close> is followed by a character other than a line feed; the group is
  the text from there to the end of the line.
\<close>

fun match_tag :: "string \<Rightarrow> string option" where
  "match_tag [] = None"
| "match_tag (c # cs) =
     (let group = takeWhile (\<lambda>x. x \<noteq> nl) (drop (length tag_key) (c # cs))
      in if prefix tag_key (c # cs) \<and> group \<noteq> [] then Some group
         else match_tag cs)"

text \<open>\<open>None\<close>: the file cannot be read or holds no tag version; the source throws.\<close>

definition getTagVersion :: "string option \<Rightarrow> string option" where
  "getTagVersion envFile =
     (case envFile of
        None \<Rightarrow> None
      | Some envContent \<Rightarrow> match_tag envContent)"

text \<open>
  What the publisher sees of the repository: the environment file, the local tags, the
  other names that \<^verbatim>\<open>git rev-parse\<close> resolves (branches, object names), the tags of
  the remote, and the names for which \<^verbatim>\<open>git tag -a\<close> or \<^verbatim>\<open>git push\<close> fails for
  a reason of its own (a name git refuses, the network). Tag names are free of shell and
  glob characters.
\<close>

record tagstore =
  envFile :: "string option"
  local_tags :: "string list"
  other_revs :: "string \<Rightarrow> bool"
  remote_tags :: "string list"
  create_fails :: "string \<Rightarrow> bool"
  push_fails :: "string \<Rightarrow> bool"

text \<open>\<^verbatim>\<open>git rev-parse name\<close> exits with 0.\<close>

definition tagExists :: "tagstore \<Rightarrow> string \<Rightarrow> bool" where
  "tagExists st tagName = (tagName \<in> set (local_tags st) \<or> other_revs st tagName)"

text \<open>\<^verbatim>\<open>git tag -l "name"\<close> prints the name.\<close>

definition tagListed :: "tagstore \<Rightarrow> string \<Rightarrow> bool" where
  "tagListed st tagName = (tagName \<in> set (local_tags st))"

text \<open>\<^verbatim>\<open>git tag -a name -m "name"\<close> and \<^verbatim>\<open>git push origin name\<close>; \<open>None\<close> when the command fails.\<close>

definition gitTag :: "tagstore \<Rightarrow> string \<Rightarrow> tagstore option" where
  "gitTag st tagName =
     (if tagName \<in> set (local_tags st) \<or> create_fails st tagName then None
      else Some (st\<lparr>local_tags := tagName # local_tags st\<rparr>))"

definition gitPush :: "tagstore \<Rightarrow> string \<Rightarrow> tagstore option" where
  "gitPush st tagName =
     (if push_fails st tagName then None
      else Some (st\<lparr>remote_tags := tagName # remote_tags st\<rparr>))"

text \<open>The output of \<^verbatim>\<open>git ls-remote --tags origin\<close>, one line for each tag, without the object names.\<close>

definition lsRemote :: "tagstore \<Rightarrow> string" where
  "lsRemote st = concat (map (\<lambda>t. ''refs/tags/'' @ t @ [nl]) (remote_tags st))"

subsection \<open>The deploy script\<close>

definition maxAttempts :: nat where
  "maxAttempts = 100"

text \<open>\<^verbatim>\<open>counter === 0 ? tagName : `${tagName}-${counter}`\<close>\<close>

definition candidate :: "string \<Rightarrow> nat \<Rightarrow> string" where
  "candidate tagName counter =
     (if counter = 0 then tagName else tagName @ ''-'' @ show_nat counter)"

text \<open>
  The \<^verbatim>\<open>while\<close> loop. The result is the published tag (\<open>None\<close> when the loop ends without
  success), the tag store afterwards, and the tags attempted, in order: one for each
  round of the loop (the line \<^verbatim>\<open>Attempting with tag\<close> of the debug log).
\<close>

function tagLoop :: "tagstore \<Rightarrow> string \<Rightarrow> nat \<Rightarrow> string option \<times> tagstore \<times> string list" where
  "tagLoop st tagName counter =
     (if counter < maxAttempts then
        (let currentTag = candidate tagName counter
         in if tagExists st currentTag
            then (case tagLoop st tagName (counter + 1) of
                    (r, st', tried) \<Rightarrow> (r, st', currentTag # tried))
            else (case gitTag st currentTag of
                    None \<Rightarrow>
                      (case tagLoop st tagName (counter + 1) of
                         (r, st', tried) \<Rightarrow> (r, st', currentTag # tried))
                  | Some st1 \<Rightarrow>
                      (case gitPush st1 currentTag of
                         None \<Rightarrow>
                           (case tagLoop st1 tagName (counter + 1) of
                              (r, st', tried) \<Rightarrow> (r, st', currentTag # tried))
                       | Some st2 \<Rightarrow> (Some currentTag, st2, [currentTag]))))
      else (None, st, []))"
  by pat_completeness auto
termination
  by (relation "measure (\<lambda>(st, tagName, counter). maxAttempts - counter)") auto

declare tagLoop.simps [simp del]

text \<open>How a run ends: the function returns, or the process exits with a code.\<close>

datatype 'a completion = Returns 'a | Exits nat

definition createAndPushTag :: "tagstore \<Rightarrow> string completion \<times> tagstore \<times> string list" where
  "createAndPushTag st =
     (case getTagVersion (envFile st) of
        None \<Rightarrow> (Exits 1, st, [])
      | Some baseTagVersion \<Rightarrow>
          (case tagLoop st (''v'' @ baseTagVersion) 0 of
             (Some currentTag, st', tried) \<Rightarrow> (Returns currentTag, st', tried)
           | (None, st', tried) \<Rightarrow> (Exits 1, st', tried)))"

subsection \<open>The post-commit hook\<close>

datatype error =
    TagVersionNotFound
  | TagAlreadyExists string
  | TagCommandFailed string
  | PushFailed string
  | NotOnRemote string
  | BranchNotAllowed string

text \<open>The hook's own \<open>createAndPushTag\<close>: one attempt, an exception at the first failure.\<close>

definition createAndPushTag_hook :: "tagstore \<Rightarrow> (error + string) \<times> tagstore" where
  "createAndPushTag_hook st =
     (case getTagVersion (envFile st) of
        None \<Rightarrow> (Inl TagVersionNotFound, st)
      | Some version \<Rightarrow>
          (let tagName = ''v'' @ version
           in if tagListed st tagName then (Inl (TagAlreadyExists tagName), st)
              else (case gitTag st tagName of
                      None \<Rightarrow> (Inl (TagCommandFailed tagName), st)
                    | Some st1 \<Rightarrow>
                        (case gitPush st1 tagName of
                           None \<Rightarrow> (Inl (PushFailed tagName), st1)
                         | Some st2 \<Rightarrow>
                             (if \<not> includes_js (lsRemote st2) (''refs/tags/'' @ tagName)
                              then (Inl (NotOnRemote tagName), st2)
                              else (Inr tagName, st2))))))"

text \<open>
  The hook's main part, from the message and the branch of the commit: an exception is
  caught and logged, and the process ends with the exit code 0.
\<close>

definition postCommit :: "string \<Rightarrow> string \<Rightarrow> tagstore \<Rightarrow> nat \<times> (error + string) option \<times> tagstore" where
  "postCommit commitMsg branch st =
     (if includes_js (trim_js commitMsg) ''-d''
      then (if trim_js branch \<notin> set [''main'', ''master'']
            then (0, Some (Inl (BranchNotAllowed (trim_js branch))), st)
            else (case createAndPushTag_hook st of
                    (r, st') \<Rightarrow> (0, Some r, st')))
      else (0, None, st))"

subsection \<open>Availability of a tag name\<close>

text \<open>
  A name is available when \<^verbatim>\<open>git rev-parse\<close> does not resolve it and neither
  \<^verbatim>\<open>git tag -a\<close> nor \<^verbatim>\<open>git push\<close> fails for it: the deploy script treats a
  collision and a failed command alike.
\<close>

definition available :: "tagstore \<Rightarrow> string \<Rightarrow> bool" where
  "available st tagName =
     (\<not> tagExists st tagName \<and> \<not> create_fails st tagName \<and> \<not> push_fails st tagName)"

text \<open>
  The deploy script creates a name when \<^verbatim>\<open>git rev-parse\<close> does not resolve it and
  \<^verbatim>\<open>git tag -a\<close> does not fail for it, whether the push succeeds or not.
\<close>

definition creatable :: "tagstore \<Rightarrow> string \<Rightarrow> bool" where
  "creatable st tagName = (\<not> tagExists st tagName \<and> \<not> create_fails st tagName)"

text \<open>
  What the loop started at \<open>counter = c\<close> has done when it ends with the result \<open>r\<close>
  and the attempts \<open>tried\<close>.
\<close>

definition loop_post :: "tagstore \<Rightarrow> string \<Rightarrow> nat \<Rightarrow> string option \<Rightarrow> string list \<Rightarrow> bool" where
  "loop_post st t c r tried =
     (case r of
        Some tag \<Rightarrow>
          (\<exists>k. c \<le> k \<and> k < maxAttempts \<and> tag = candidate t k \<and> available st tag
               \<and> (\<forall>j. c \<le> j \<and> j < k \<longrightarrow> \<not> available st (candidate t j))
               \<and> tried = map (candidate t) [c..<Suc k])
      | None \<Rightarrow>
          (\<forall>j. c \<le> j \<and> j < maxAttempts \<longrightarrow> \<not> available st (candidate t j))
          \<and> tried = map (candidate t) [c..<maxAttempts])"

section \<open>Example states\<close>



text \<open>A major version raised by hand.\<close>

definition folder_major :: folder where
  "folder_major =
     \<lparr>head_commit = True, head_file = Package (Some ''1.4.0''),
      index_file = Package (Some ''2.0.0''), work_file = Package (Some ''2.0.0''),
      cached_names = Some ''web/index.js''\<rparr>"

text \<open>A source file staged, the version untouched.\<close>

definition folder_changed :: folder where
  "folder_changed =
     \<lparr>head_commit = True, head_file = Package (Some ''1.0.0''),
      index_file = Package (Some ''1.0.0''), work_file = Package (Some ''1.0.0''),
      cached_names = Some ''web/index.js''\<rparr>"

text \<open>The same, the version edited in the working tree and not staged.\<close>

definition folder_drift :: folder where
  "folder_drift = folder_changed\<lparr>work_file := Package (Some ''2.3.4'')\<rparr>"

text \<open>A version of two components at all three places, and a source file staged.\<close>

definition folder_short :: folder where
  "folder_short =
     \<lparr>head_commit = True, head_file = Package (Some ''1.2''),
      index_file = Package (Some ''1.2''), work_file = Package (Some ''1.2''),
      cached_names = Some ''web/index.js''\<rparr>"

text \<open>Folder A (\<^verbatim>\<open>back\<close>) at \<open>2.5.1\<close>, folder B (\<^verbatim>\<open>web\<close>) at \<open>1.0.9\<close>.\<close>

definition repo_example :: repo where
  "repo_example =
     \<lparr>web_folder = folder_changed\<lparr>work_file := Package (Some ''1.0.9'')\<rparr>,
      back_folder = folder_changed\<lparr>work_file := Package (Some ''2.5.1'')\<rparr>,
      history = [], env_file = None\<rparr>"


definition folder_rounded_major :: folder where
  "folder_rounded_major =
     \<lparr>head_commit = True, head_file = Package (Some ''9007199254740992.4.0''),
      index_file = Package (Some ''9007199254740993.5.0''),
      work_file = Package (Some ''9007199254740993.5.0''),
      cached_names = Some ''web/index.js''\<rparr>"

definition folder_rounded_patch :: folder where
  "folder_rounded_patch =
     \<lparr>head_commit = True, head_file = Package (Some ''1.0.9007199254740992''),
      index_file = Package (Some ''1.0.9007199254740992''),
      work_file = Package (Some ''1.0.9007199254740992''),
      cached_names = Some ''web/index.js''\<rparr>"

definition repo_rounded :: repo where
  "repo_rounded =
     \<lparr>web_folder = folder_changed\<lparr>work_file := Package (Some ''1.0.9'')\<rparr>,
      back_folder = folder_changed\<lparr>work_file := Package (Some ''2.9007199254740993.1'')\<rparr>,
      history = [], env_file = None\<rparr>"

text \<open>A history log entry.\<close>

definition entry_example :: string where
  "entry_example = ''2025-01-01 12:00:00 - No web version change needed (no web changes detected)''"

text \<open>Tag stores with \<^verbatim>\<open>TAG_VERSION=1.0.0\<close>: the tag taken, free, and every name taken.\<close>

definition store_collision :: tagstore where
  "store_collision =
     \<lparr>envFile = Some ''TAG_VERSION=1.0.0'', local_tags = [''v1.0.0''],
      other_revs = (\<lambda>name. False), remote_tags = [''v1.0.0''],
      create_fails = (\<lambda>name. False), push_fails = (\<lambda>name. False)\<rparr>"

definition store_fresh :: tagstore where
  "store_fresh = store_collision\<lparr>local_tags := [], remote_tags := []\<rparr>"

definition store_full :: tagstore where
  "store_full = store_collision\<lparr>other_revs := (\<lambda>name. True)\<rparr>"

text \<open>Environment files: with a tag version, without one, and with an indented first line.\<close>

definition env_example :: string where
  "env_example = ''FOO=1'' @ nl # ''TAG_VERSION=1.0.0.0'' @ nl # ''BAR=2'' @ [nl]"

definition env_without_tag :: string where
  "env_without_tag = ''FOO=1'' @ [nl]"

definition env_indented :: string where
  "env_indented = ''  FOO=1'' @ nl # ''TAG_VERSION=1.0.0.0'' @ [nl]"

section \<open>Facts about the string functions\<close>

lemma split_js_not_Nil: "split_js d s \<noteq> []"
  by (induction s) (auto split: list.splits)


lemma split_js_append_sep:
  "d \<notin> set a \<Longrightarrow> split_js d (a @ d # s) = a # split_js d s"
  by (induction a) auto

lemma trim_js_Nil [simp]: "trim_js [] = []"
  by (simp add: trim_js_def)

lemma trim_js_eq_Nil: "trim_js s = [] \<longleftrightarrow> (\<forall>c \<in> set s. white c)"
proof
  assume "trim_js s = []"
  then have "\<forall>c \<in> set (dropWhile white s). white c"
    by (simp add: trim_js_def)
  then have "dropWhile white s = []"
    by (metis hd_dropWhile list.set_sel(1))
  then show "\<forall>c \<in> set s. white c"
    by simp
next
  assume "\<forall>c \<in> set s. white c"
  then have "dropWhile white s = []"
    by simp
  then show "trim_js s = []"
    unfolding trim_js_def by (simp only: rev.simps dropWhile.simps)
qed

lemma split_js_entries:
  "\<forall>e \<in> set es. nl \<notin> set e \<Longrightarrow> split_js nl (entries es) = es @ [[]]"
  by (induction es) (simp_all add: entries_def split_js_append_sep)

lemma filter_entries:
  assumes "\<forall>e \<in> set es. nl \<notin> set e \<and> trim_js e \<noteq> []"
  shows "filter (\<lambda>line. trim_js line \<noteq> []) (split_js nl (entries es)) = es"
proof -
  have "filter (\<lambda>line. trim_js line \<noteq> []) es = es"
    using assms by (simp add: filter_id_conv)
  with assms show ?thesis
    by (simp add: split_js_entries)
qed

section \<open>Facts about numbers and versions\<close>

lemma digit_cases: "(d::nat) < 10 \<Longrightarrow> d \<in> {0, 1, 2, 3, 4, 5, 6, 7, 8, 9}"
  by auto


lemma digit_val_char_of: "d < 10 \<Longrightarrow> digit_val (digit_char d) = d"
  by (drule digit_cases) (auto simp: digit_val_def digit_char_def)

lemma digit_not_white: "digit c \<Longrightarrow> \<not> white c"
  by (auto simp: digit_def white_def)


lemma digit_ascii: "digit c \<Longrightarrow> ascii c"
  by (auto simp: digit_def ascii_def)



lemma show_nat_digit: "n < 10 \<Longrightarrow> show_nat n = [digit_char n]"
  by (subst show_nat.simps) simp

lemma decimal_snoc: "decimal (s @ [c]) = 10 * decimal s + digit_val c"
  by (simp add: decimal_def)

lemma decimal_show_nat: "decimal (show_nat n) = n"
proof (induction n rule: show_nat.induct)
  case (1 n)
  show ?case
  proof (cases "n < 10")
    case True
    then show ?thesis
      by (subst show_nat.simps) (simp add: decimal_def digit_val_char_of)
  next
    case False
    with 1 show ?thesis
      by (subst show_nat.simps) (simp add: decimal_snoc digit_val_char_of)
  qed
qed

lemma show_nat_inject: "show_nat m = show_nat n \<longleftrightarrow> m = n"
  by (metis decimal_show_nat)

lemma trim_js_id: "\<forall>c \<in> set s. \<not> white c \<Longrightarrow> trim_js s = s"
proof -
  assume a: "\<forall>c \<in> set s. \<not> white c"
  then have "dropWhile white s = s" by (cases s) auto
  moreover from a have "dropWhile white (rev s) = rev s"
    by (cases "rev s") (auto dest: arg_cong [where f = set])
  ultimately show ?thesis by (simp add: trim_js_def)
qed

lemma max_safe_less: "n \<le> max_safe \<longleftrightarrow> n < 2 ^ 53"
  unfolding max_safe_def by (simp, arith)

lemma round_double_safe: "n \<le> max_safe \<Longrightarrow> round_double n = Num n"
  by (simp add: round_double_def max_safe_less)

lemma bits_double: "0 < n \<Longrightarrow> bits (2 * n) = Suc (bits n)"
  by (subst bits.simps) simp

lemma bits_double_Suc: "bits (Suc (2 * n)) = Suc (bits n)"
  by (subst bits.simps) simp

lemma bits_power: "bits (2 ^ k) = Suc k"
proof (induction k)
  case 0
  have "bits (Suc 0) = Suc (bits 0)"
    by (subst bits.simps) simp
  then show ?case by (simp add: bits.simps [of 0])
next
  case (Suc k)
  then show ?case by (simp add: bits_double)
qed

lemma bits_power_Suc: "bits (Suc (2 ^ Suc k)) = Suc (Suc k)"
  using bits_double_Suc [of "2 ^ k"] by (simp add: bits_power)

text \<open>The double of \<open>2^53\<close> and of \<open>2^53 + 1\<close>.\<close>

lemma round_double_two_53: "round_double 9007199254740992 = Num 9007199254740992"
proof -
  have b: "bits 9007199254740992 = 54"
    using bits_power [of 53] by simp
  show ?thesis
    by (simp add: round_double_def b Let_def)
qed

lemma round_double_two_53_plus_1: "round_double 9007199254740993 = Num 9007199254740992"
proof -
  have b: "bits 9007199254740993 = 54"
    using bits_power_Suc [of 52] by simp
  show ?thesis
    by (simp add: round_double_def b Let_def)
qed


lemma toString_safe: "n \<le> max_safe \<Longrightarrow> toString (Num n) = Computed (show_nat n)"
  by (simp add: max_safe_def)


lemma Number_js_digits: "digits s \<Longrightarrow> Number_js s = Computed (round_double (decimal s))"
proof -
  assume d: "digits s"
  then have "trim_js s = s"
    by (intro trim_js_id) (auto simp add: digits_def list_all_iff digit_not_white)
  moreover from d have "list_all ascii s"
    by (auto simp add: digits_def list_all_iff digit_ascii)
  ultimately show ?thesis
    using d by (simp add: Number_js_def digits_def)
qed








lemma version_of_semver: "version_of s = Some v \<Longrightarrow> semver s"
  by (simp add: version_of_def split: if_splits)

lemma semver_not_Nil: "semver s \<Longrightarrow> s \<noteq> []"
  by (auto simp add: semver_def)

lemma version_of_not_Nil: "version_of s = Some v \<Longrightarrow> s \<noteq> []"
  by (auto dest: version_of_semver semver_not_Nil)

lemma semver_version_of: "semver s \<Longrightarrow> \<exists>v. version_of s = Some v"
  by (auto simp add: version_of_def semver_def split: list.splits)

text \<open>The parts of a version string are the doubles of its numbers.\<close>

lemma version_of_rounded:
  "version_of s = Some (a, b, c) \<Longrightarrow>
   components s = Computed [round_double a, round_double b, round_double c]"
  by (auto simp add: version_of_def semver_def components_def Number_js_digits
      split: if_splits list.splits)

lemma version_of_components:
  "version_of s = Some (a, b, c) \<Longrightarrow> safe (a, b, c) \<Longrightarrow>
   components s = Computed [Num a, Num b, Num c]"
  by (simp add: version_of_rounded safe_def round_double_safe)

lemma version_of_differ:
  "version_of s = Some v \<Longrightarrow> version_of h = Some w \<Longrightarrow> v \<noteq> w \<Longrightarrow> s \<noteq> h"
  by auto

lemma element_simps [simp]:
  "element (x # xs) 0 = x"
  "element (x # y # xs) 1 = y"
  "element (x # y # z # xs) 2 = z"
  "element (x # y # xs) (Suc 0) = y"
  by (simp_all add: element_def)

lemma template_computed: "template (map Computed ss) = Computed (dotted ss)"
proof -
  have "all_computed (map Computed ss) = Computed ss"
    by (induction ss) simp_all
  then show ?thesis by (simp add: template_def)
qed

section \<open>Facts about the pre-commit hook\<close>






lemma handleMinor_none:
  assumes "version_of s = Some (sM, sm, sp)" and "safe (sM, sm, sp)"
      and "version_of h = Some (hM, hm, hp)" and "safe (hM, hm, hp)"
      and "\<not> (sM = hM \<and> hm < sm)"
  shows "handleMinorVersionBump f s h = Computed (None, f)"
  using assms(5)
  by (auto simp add: handleMinorVersionBump_def version_of_components [OF assms(1,2)]
      version_of_components [OF assms(3,4)] Let_def)


lemma getHeadVersion_not_Nil: "getHeadVersion f \<noteq> []"
  by (simp add: getHeadVersion_def split: metafile.splits option.splits)

lemma getCurrentVersion_version:
  "work_file f = Package (Some w) \<Longrightarrow> version_of w = Some v \<Longrightarrow> getCurrentVersion f = w"
  by (simp add: getCurrentVersion_def version_of_semver version_of_not_Nil)

lemma tagVersion_versions:
  assumes "version_of a = Some (aM, am, ap)" and "safe (aM, am, ap)"
      and "version_of b = Some (bM, bm, bp)" and "safe (bM, bm, bp)"
  shows "tagVersion a b =
           Computed (show_nat am @ ''.'' @ show_nat ap @ ''.'' @ show_nat bm @ ''.'' @ show_nat bp)"
proof -
  from assms(2,4) have s: "am \<le> max_safe" "ap \<le> max_safe" "bm \<le> max_safe" "bp \<le> max_safe"
    by (simp_all add: safe_def)
  then show ?thesis
    using template_computed [of "[show_nat am, show_nat ap, show_nat bm, show_nat bp]"]
    by (simp add: tagVersion_def version_of_components [OF assms(1,2)]
        version_of_components [OF assms(3,4)] Let_def toString_safe del: toString.simps)
qed

section \<open>Facts about the tag publisher\<close>

lemma candidate_inject: "candidate t i = candidate t j \<longleftrightarrow> i = j"
  by (auto simp add: candidate_def show_nat_inject)

lemma loop_post_step:
  assumes c: "c < maxAttempts"
      and cur: "\<not> available st (candidate t c)"
      and same: "\<forall>j. c < j \<longrightarrow> available st1 (candidate t j) = available st (candidate t j)"
      and post: "loop_post st1 t (Suc c) r tried"
  shows "loop_post st t c r (candidate t c # tried)"
proof (cases r)
  case None
  with post have no: "\<forall>j. Suc c \<le> j \<and> j < maxAttempts \<longrightarrow> \<not> available st1 (candidate t j)"
    and tr: "tried = map (candidate t) [Suc c..<maxAttempts]"
    by (simp_all add: loop_post_def)
  have "\<not> available st (candidate t j)" if "c \<le> j" "j < maxAttempts" for j
  proof (cases "j = c")
    case True with cur show ?thesis by simp
  next
    case False
    with that have "Suc c \<le> j" by simp
    with no that same show ?thesis by auto
  qed
  moreover have "candidate t c # tried = map (candidate t) [c..<maxAttempts]"
    using c tr by (simp add: upt_conv_Cons)
  ultimately show ?thesis
    using None by (simp add: loop_post_def)
next
  case (Some tag)
  with post obtain k where k: "Suc c \<le> k" "k < maxAttempts" "tag = candidate t k"
      "available st1 tag"
      "\<forall>j. Suc c \<le> j \<and> j < k \<longrightarrow> \<not> available st1 (candidate t j)"
      "tried = map (candidate t) [Suc c..<Suc k]"
    by (auto simp add: loop_post_def)
  have "\<not> available st (candidate t j)" if "c \<le> j" "j < k" for j
  proof (cases "j = c")
    case True with cur show ?thesis by simp
  next
    case False
    with that have "Suc c \<le> j" by simp
    with k(5) that same show ?thesis by auto
  qed
  moreover have "available st tag"
    using k(1,3,4) same by auto
  moreover have "candidate t c # tried = map (candidate t) [c..<Suc k]"
    using k(1,6) by (simp add: upt_conv_Cons)
  ultimately show ?thesis
    using Some k(1,2,3) by (auto simp add: loop_post_def intro!: exI [of _ k])
qed

lemma available_gitTag:
  assumes "gitTag st (candidate t c) = Some st1" and "c < j"
  shows "available st1 (candidate t j) = available st (candidate t j)"
  using assms
  by (auto simp add: gitTag_def available_def tagExists_def candidate_inject split: if_splits)

lemma tagLoop_post:
  "tagLoop st t c = (r, st', tried) \<Longrightarrow> loop_post st t c r tried"
proof (induction st t c arbitrary: r st' tried rule: tagLoop.induct)
  case (1 st t c)
  let ?cur = "candidate t c"
  show ?case
  proof (cases "c < maxAttempts")
    case False
    with "1.prems" show ?thesis
      by (auto simp add: tagLoop.simps [of st t c] loop_post_def)
  next
    case True
    note c = this
    show ?thesis
    proof (cases "tagExists st ?cur")
      case True
      obtain r0 st0 tr0 where rec: "tagLoop st t (c + 1) = (r0, st0, tr0)"
        by (cases "tagLoop st t (c + 1)") auto
      with "1.prems" c True have res: "r = r0" "tried = ?cur # tr0"
        by (auto simp add: tagLoop.simps [of st t c] Let_def)
      have "loop_post st t (Suc c) r0 tr0"
        using "1.IH"(1) [OF c refl True rec] by simp
      moreover have "\<not> available st ?cur"
        using True by (simp add: available_def)
      ultimately show ?thesis
        using res loop_post_step [OF c, of st t st] by simp
    next
      case False
      note fresh = this
      show ?thesis
      proof (cases "gitTag st ?cur")
        case None
        obtain r0 st0 tr0 where rec: "tagLoop st t (c + 1) = (r0, st0, tr0)"
          by (cases "tagLoop st t (c + 1)") auto
        with "1.prems" c fresh None have res: "r = r0" "tried = ?cur # tr0"
          by (auto simp add: tagLoop.simps [of st t c] Let_def)
        have "loop_post st t (Suc c) r0 tr0"
          using "1.IH"(2) [OF c refl fresh None rec] by simp
        moreover have "\<not> available st ?cur"
          using None fresh by (simp add: available_def gitTag_def tagExists_def split: if_splits)
        ultimately show ?thesis
          using res loop_post_step [OF c, of st t st] by simp
      next
        case (Some st1)
        note tagged = this
        show ?thesis
        proof (cases "gitPush st1 ?cur")
          case None
          obtain r0 st0 tr0 where rec: "tagLoop st1 t (c + 1) = (r0, st0, tr0)"
            by (cases "tagLoop st1 t (c + 1)") auto
          with "1.prems" c fresh tagged None have res: "r = r0" "tried = ?cur # tr0"
            by (auto simp add: tagLoop.simps [of st t c] Let_def)
          have "loop_post st1 t (Suc c) r0 tr0"
            using "1.IH"(3) [OF c refl fresh tagged None rec] by simp
          moreover have "\<not> available st ?cur"
            using None tagged by (auto simp add: available_def gitTag_def gitPush_def split: if_splits)
          moreover have "\<forall>j. c < j \<longrightarrow> available st1 (candidate t j) = available st (candidate t j)"
            using available_gitTag [OF tagged] by simp
          ultimately show ?thesis
            using res loop_post_step [OF c, of st t st1] by simp
        next
          case (Some st2)
          with "1.prems" c fresh tagged have res: "r = Some ?cur" "tried = [?cur]"
            by (auto simp add: tagLoop.simps [of st t c] Let_def)
          moreover have "available st ?cur"
            using fresh tagged Some
            by (auto simp add: available_def gitTag_def gitPush_def split: if_splits)
          ultimately show ?thesis
            using c by (auto simp add: loop_post_def intro!: exI [of _ c])
        qed
      qed
    qed
  qed
qed

lemma createAndPushTag_post:
  assumes "getTagVersion (envFile st) = Some version"
  shows "loop_post st (''v'' @ version) 0
           (case fst (createAndPushTag st) of Returns tag \<Rightarrow> Some tag | Exits code \<Rightarrow> None)
           (snd (snd (createAndPushTag st)))
         \<and> (\<forall>code. fst (createAndPushTag st) = Exits code \<longrightarrow> code = 1)"
proof -
  obtain r st' tried where rec: "tagLoop st (''v'' @ version) 0 = (r, st', tried)"
    by (cases "tagLoop st (''v'' @ version) 0") auto
  from tagLoop_post [OF rec] assms rec show ?thesis
    by (cases r) (simp_all add: createAndPushTag_def)
qed

lemma createAndPushTag_cases:
  assumes "getTagVersion (envFile st) = Some version"
  shows "(\<exists>k < maxAttempts.
            fst (createAndPushTag st) = Returns (candidate (''v'' @ version) k)
            \<and> available st (candidate (''v'' @ version) k)
            \<and> (\<forall>j < k. \<not> available st (candidate (''v'' @ version) j))
            \<and> snd (snd (createAndPushTag st)) = map (candidate (''v'' @ version)) [0..<Suc k])
       \<or> (fst (createAndPushTag st) = Exits 1
           \<and> (\<forall>j < maxAttempts. \<not> available st (candidate (''v'' @ version) j))
           \<and> snd (snd (createAndPushTag st)) = map (candidate (''v'' @ version)) [0..<maxAttempts])"
proof (cases "fst (createAndPushTag st)")
  case (Returns tag)
  with createAndPushTag_post [OF assms] show ?thesis
    by (auto simp add: loop_post_def)
next
  case (Exits code)
  with createAndPushTag_post [OF assms] show ?thesis
    by (auto simp add: loop_post_def)
qed

lemma candidate_0: "candidate t 0 = t"
  by (simp add: candidate_def)

lemma candidate_1: "candidate t (Suc 0) = t @ ''-1''"
  by (simp add: candidate_def show_nat_digit digit_char_def)

lemma candidate_pos: "0 < k \<Longrightarrow> candidate t k = t @ ''-'' @ show_nat k"
  by (simp add: candidate_def)

lemma take_2_candidates:
  "2 \<le> n \<Longrightarrow> take 2 (map (candidate t) [0..<n]) = [t, t @ ''-1'']"
proof -
  assume "2 \<le> n"
  then obtain m where "n = Suc (Suc m)" by (metis Suc_le_D numeral_2_eq_2 Suc_le_mono)
  then show ?thesis
    by (simp add: upt_conv_Cons candidate_0 candidate_1 del: upt_Suc)
qed

lemma base_not_retried:
  "t \<notin> set (tl (map (candidate t) [0..<n]))"
proof (cases n)
  case 0 then show ?thesis by simp
next
  case (Suc m)
  have "t \<noteq> candidate t j" if "0 < j" for j
    using that candidate_inject [of t j 0] by (auto simp add: candidate_0)
  then show ?thesis
    using Suc by (auto simp add: upt_conv_Cons simp del: upt_Suc)
qed

lemma distinct_candidates: "distinct (map (candidate t) [0..<n])"
  by (simp add: distinct_map inj_on_def candidate_inject)

lemma postCommit_exit_code: "fst (postCommit commitMsg branch st) = 0"
  by (simp add: postCommit_def split: prod.splits)

lemma listed_after_push:
  "includes_js (lsRemote (st\<lparr>remote_tags := t # ts\<rparr>)) (''refs/tags/'' @ t)"
  by (simp add: lsRemote_def)

section \<open>Facts about the environment file\<close>

lemma tag_key_not_Nil: "tag_key \<noteq> []"
  by (simp add: tag_key_def)

lemma nl_notin_tag_key: "nl \<notin> set tag_key"
  by (simp add: tag_key_def nl_def)

lemma prefix_within_line:
  "nl \<notin> set p \<Longrightarrow> prefix p (xs @ nl # ys) \<Longrightarrow> prefix p xs"
  by (auto simp add: prefix_append prefix_Cons)

lemma not_prefix_tag_key_nl: "\<not> prefix tag_key (nl # rest)"
  by (simp add: tag_key_def nl_def)

lemma replace_tag_skip_line:
  "\<not> includes_js l tag_key \<Longrightarrow> replace_tag (l @ nl # rest) r = l @ nl # replace_tag rest r"
proof (induction l)
  case Nil
  then show ?case by (simp add: not_prefix_tag_key_nl)
next
  case (Cons c l)
  then have "\<not> prefix tag_key (c # l)" and rest: "\<not> includes_js l tag_key"
    by simp_all
  then have "\<not> prefix tag_key ((c # l) @ nl # rest)"
    using prefix_within_line [OF nl_notin_tag_key] by blast
  with Cons.IH [OF rest] show ?case by simp
qed

lemma includes_js_skip_line:
  "\<not> includes_js l tag_key \<Longrightarrow> includes_js (l @ nl # rest) tag_key = includes_js rest tag_key"
proof (induction l)
  case Nil
  then show ?case by (simp add: not_prefix_tag_key_nl)
next
  case (Cons c l)
  then have "\<not> prefix tag_key (c # l)" and rest: "\<not> includes_js l tag_key"
    by simp_all
  then have "\<not> prefix tag_key ((c # l) @ nl # rest)"
    using prefix_within_line [OF nl_notin_tag_key] by blast
  with Cons.IH [OF rest] show ?case by simp
qed

lemma includes_js_occurrence: "p \<noteq> [] \<Longrightarrow> includes_js (a @ p @ rest) p"
proof (induction a)
  case Nil
  then show ?case by (cases p) simp_all
next
  case (Cons c a)
  then show ?case by simp
qed

lemma prefix_short: "prefix p (xs @ ys) \<Longrightarrow> length p \<le> length xs \<Longrightarrow> prefix p xs"
  by (auto simp add: prefix_append)

lemma replace_tag_at_key:
  "replace_tag (tag_key @ rest) r = r @ dropWhile (\<lambda>x. \<not> line_terminator x) rest"
proof -
  obtain c cs where k: "tag_key @ rest = c # cs"
    using tag_key_not_Nil by (cases "tag_key @ rest") auto
  have "prefix tag_key (c # cs)"
    by (simp flip: k)
  then have "replace_tag (c # cs) r
             = r @ dropWhile (\<lambda>x. \<not> line_terminator x) (drop (length tag_key) (c # cs))"
    by simp
  then show ?thesis
    by (simp flip: k)
qed

lemma replace_tag_first:
  "\<not> includes_js (a @ butlast tag_key) tag_key \<Longrightarrow>
   replace_tag (a @ tag_key @ rest) r = a @ r @ dropWhile (\<lambda>x. \<not> line_terminator x) rest"
proof (induction a)
  case Nil
  show ?case by (simp add: replace_tag_at_key)
next
  case (Cons c a)
  then have np: "\<not> prefix tag_key ((c # a) @ butlast tag_key)"
    and rest: "\<not> includes_js (a @ butlast tag_key) tag_key"
    by simp_all
  have "butlast tag_key @ [last tag_key] = tag_key"
    using tag_key_not_Nil by simp
  then have "tag_key @ rest = butlast tag_key @ last tag_key # rest"
    by (metis append.assoc append_Cons append_Nil)
  then have "(c # a) @ tag_key @ rest = ((c # a) @ butlast tag_key) @ (last tag_key # rest)"
    by simp
  moreover have "length tag_key \<le> length ((c # a) @ butlast tag_key)"
    by simp
  ultimately have "\<not> prefix tag_key ((c # a) @ tag_key @ rest)"
    using np prefix_short by metis
  with Cons.IH [OF rest] show ?case by simp
qed

lemma split_js_parts: "w \<in> set (split_js d s) \<Longrightarrow> d \<notin> set w"
proof (induction s arbitrary: w)
  case Nil
  then show ?case by simp
next
  case (Cons c s)
  obtain v vs where v: "split_js d s = v # vs"
    using split_js_not_Nil [of d s] by (cases "split_js d s") auto
  with Cons show ?case
    by (cases "c = d") auto
qed

lemma join_js_Cons: "ls \<noteq> [] \<Longrightarrow> join_js (l # ls) = l @ nl # join_js ls"
  by (cases ls) simp_all

lemma join_js_split: "join_js (split_js nl s) = s"
proof (induction s)
  case Nil
  show ?case by simp
next
  case (Cons c s)
  show ?case
  proof (cases "c = nl")
    case True
    with Cons show ?thesis by (simp add: join_js_Cons split_js_not_Nil)
  next
    case False
    obtain w ws where w: "split_js nl s = w # ws"
      using split_js_not_Nil [of nl s] by (cases "split_js nl s") auto
    with Cons False show ?thesis by (cases ws) simp_all
  qed
qed

lemma join_js_line: "join_js (l # post) = l @ after_line post"
  by (simp add: after_line_def join_js_Cons)

lemma join_js_append: "join_js (pre @ l # post) = entries pre @ l @ after_line post"
proof (induction pre)
  case Nil
  show ?case by (simp add: entries_def join_js_line)
next
  case (Cons p pre)
  have "join_js ((p # pre) @ l # post) = p @ nl # join_js (pre @ l # post)"
    by (simp add: join_js_Cons)
  with Cons show ?case by (simp add: entries_def)
qed

lemma replace_tag_skip_lines:
  "\<forall>l \<in> set pre. \<not> includes_js l tag_key \<Longrightarrow>
   replace_tag (entries pre @ rest) r = entries pre @ replace_tag rest r"
  by (induction pre) (simp_all add: entries_def replace_tag_skip_line)

lemma includes_js_skip_lines:
  "\<forall>l \<in> set pre. \<not> includes_js l tag_key \<Longrightarrow>
   includes_js (entries pre @ rest) tag_key = includes_js rest tag_key"
  by (induction pre) (simp_all add: entries_def includes_js_skip_line)

lemma dropWhile_line_end:
  "dropWhile (\<lambda>x. \<not> line_terminator x) (old @ after_line post)
   = dropWhile (\<lambda>x. \<not> line_terminator x) old @ after_line post"
proof (cases "\<forall>x \<in> set old. \<not> line_terminator x")
  case True
  then have "dropWhile (\<lambda>x. \<not> line_terminator x) old = []"
    by simp
  moreover have "dropWhile (\<lambda>x. \<not> line_terminator x) (after_line post) = after_line post"
    by (simp add: after_line_def line_terminator_def)
  ultimately show ?thesis
    using True by (simp add: dropWhile_append2)
next
  case False
  then obtain x where "x \<in> set old" "\<not> \<not> line_terminator x"
    by blast
  then show ?thesis
    by (rule dropWhile_append1)
qed

lemma updateEnvTagVersion_env:
  "updateEnvTagVersion st = Computed (tag, st') \<Longrightarrow>
   env_file st' = Some (writeTag (env_file st) tag)"
  by (auto simp add: updateEnvTagVersion_def Let_def split: modelled.splits)

lemma writeTag_no_final_newline:
  "writeTag (Some ''FOO=1'') ''5.1.0.9'' = ''FOO=1TAG_VERSION=5.1.0.9''"
  by code_simp

lemma writeTag_replaces:
  assumes h: "split_js nl s = pre @ [a @ tag_key @ old] @ post
      \<and> (\<forall>l \<in> set pre. \<not> includes_js l tag_key)
      \<and> \<not> includes_js (a @ butlast tag_key) tag_key"
  shows "writeTag (Some s) tag =
      trim_js (join_js (pre @ [a @ tag_key @ tag @ dropWhile (\<lambda>c. c \<noteq> cr) old] @ post))"
proof -
  let ?P = "\<lambda>x. \<not> line_terminator x"
  let ?r = "tag_key @ tag"
  from h have "s = join_js (pre @ (a @ tag_key @ old) # post)"
    using join_js_split [of s] by simp
  then have s: "s = entries pre @ a @ tag_key @ old @ after_line post"
    by (simp add: join_js_append)
  have inc: "includes_js s tag_key"
    using h includes_js_occurrence [OF tag_key_not_Nil, of a "old @ after_line post"]
    by (simp add: s includes_js_skip_lines)
  have "a @ tag_key @ old \<in> set (split_js nl s)"
    using h by simp
  then have "nl \<notin> set (a @ tag_key @ old)"
    by (rule split_js_parts)
  then have old: "dropWhile ?P old = dropWhile (\<lambda>c. c \<noteq> cr) old"
    by (intro dropWhile_cong) (auto simp add: line_terminator_def)
  have "replace_tag s ?r = entries pre @ a @ ?r @ dropWhile ?P (old @ after_line post)"
    using h by (simp add: s replace_tag_skip_lines replace_tag_first)
  also have "\<dots> = entries pre @ (a @ ?r @ dropWhile (\<lambda>c. c \<noteq> cr) old) @ after_line post"
    by (simp add: dropWhile_line_end old)
  also have "\<dots> = join_js (pre @ (a @ ?r @ dropWhile (\<lambda>c. c \<noteq> cr) old) # post)"
    by (simp only: join_js_append)
  finally show ?thesis
    using inc by (simp add: writeTag_def)
qed

lemma writeTag_appends:
  assumes h: "split_js nl s = pre @ [[]] \<and> \<not> includes_js s tag_key"
  shows "writeTag (Some s) tag = trim_js (join_js (pre @ [tag_key @ tag, []]))"
proof -
  from h have "s = join_js (pre @ [[]])"
    using join_js_split [of s] by simp
  then have s: "s = entries pre"
    by (simp add: join_js_append after_line_def)
  have "join_js (pre @ [tag_key @ tag, []]) = entries pre @ tag_key @ tag @ [nl]"
    by (simp add: join_js_append after_line_def)
  with h s show ?thesis
    by (simp add: writeTag_def)
qed

lemma butlast_tag_key: "\<not> includes_js (butlast tag_key) tag_key"
  by code_simp

section \<open>Facts about the tag store\<close>

lemma creatable_gitTag:
  assumes "gitTag st (candidate t c) = Some st1" and "c < j"
  shows "creatable st1 (candidate t j) = creatable st (candidate t j)"
  using assms
  by (auto simp add: gitTag_def creatable_def tagExists_def candidate_inject split: if_splits)

lemma tagLoop_tried:
  "tagLoop st t c = (r, st', tried) \<Longrightarrow> \<exists>n. tried = map (candidate t) [c..<n]"
proof -
  assume "tagLoop st t c = (r, st', tried)"
  from tagLoop_post [OF this] show ?thesis
  proof (cases r)
    case None
    with \<open>loop_post st t c r tried\<close> show ?thesis
      by (auto simp add: loop_post_def)
  next
    case (Some tag)
    with \<open>loop_post st t c r tried\<close>
    obtain k where "c \<le> k" "tried = map (candidate t) [c..<k] @ [candidate t k]"
      by (auto simp add: loop_post_def)
    then have "tried = map (candidate t) [c..<Suc k]"
      by simp
    then show ?thesis ..
  qed
qed

lemma tagLoop_store:
  "tagLoop st t c = (r, st', tried) \<Longrightarrow>
   st' = st\<lparr>local_tags := rev (filter (creatable st) tried) @ local_tags st,
            remote_tags := (case r of Some tag \<Rightarrow> tag # remote_tags st
                            | None \<Rightarrow> remote_tags st)\<rparr>"
proof (induction st t c arbitrary: r st' tried rule: tagLoop.induct)
  case (1 st t c)
  let ?cur = "candidate t c"
  show ?case
  proof (cases "c < maxAttempts")
    case False
    with "1.prems" show ?thesis
      by (auto simp add: tagLoop.simps [of st t c])
  next
    case True
    note c = this
    show ?thesis
    proof (cases "tagExists st ?cur")
      case True
      obtain r0 st0 tr0 where rec: "tagLoop st t (c + 1) = (r0, st0, tr0)"
        by (cases "tagLoop st t (c + 1)") auto
      with "1.prems" c True have res: "r = r0" "st' = st0" "tried = ?cur # tr0"
        by (auto simp add: tagLoop.simps [of st t c] Let_def)
      have "\<not> creatable st ?cur"
        using True by (simp add: creatable_def)
      with "1.IH"(1) [OF c refl True rec] res show ?thesis
        by simp
    next
      case False
      note fresh = this
      show ?thesis
      proof (cases "gitTag st ?cur")
        case None
        obtain r0 st0 tr0 where rec: "tagLoop st t (c + 1) = (r0, st0, tr0)"
          by (cases "tagLoop st t (c + 1)") auto
        with "1.prems" c fresh None have res: "r = r0" "st' = st0" "tried = ?cur # tr0"
          by (auto simp add: tagLoop.simps [of st t c] Let_def)
        have "\<not> creatable st ?cur"
          using None fresh by (simp add: creatable_def gitTag_def tagExists_def split: if_splits)
        with "1.IH"(2) [OF c refl fresh None rec] res show ?thesis
          by simp
      next
        case (Some st1)
        note tagged = this
        have st1: "st1 = st\<lparr>local_tags := ?cur # local_tags st\<rparr>"
          and cr: "creatable st ?cur"
          using tagged fresh by (simp_all add: gitTag_def creatable_def split: if_splits)
        show ?thesis
        proof (cases "gitPush st1 ?cur")
          case None
          obtain r0 st0 tr0 where rec: "tagLoop st1 t (c + 1) = (r0, st0, tr0)"
            by (cases "tagLoop st1 t (c + 1)") auto
          with "1.prems" c fresh tagged None have res: "r = r0" "st' = st0" "tried = ?cur # tr0"
            by (auto simp add: tagLoop.simps [of st t c] Let_def)
          from tagLoop_tried [OF rec] obtain n where tr0: "tr0 = map (candidate t) [c + 1..<n]"
            by blast
          have "filter (creatable st1) tr0 = filter (creatable st) tr0"
            unfolding tr0 using creatable_gitTag [OF tagged]
            by (intro filter_cong) auto
          moreover have "remote_tags st1 = remote_tags st" "local_tags st1 = ?cur # local_tags st"
            by (simp_all add: st1)
          moreover have "st1\<lparr>local_tags := ls, remote_tags := rs\<rparr>
              = st\<lparr>local_tags := ls, remote_tags := rs\<rparr>" for ls rs
            by (simp add: st1)
          ultimately show ?thesis
            using "1.IH"(3) [OF c refl fresh tagged None rec] res cr
            by (cases r0) simp_all
        next
          case (Some st2)
          with "1.prems" c fresh tagged have res: "r = Some ?cur" "st' = st2" "tried = [?cur]"
            by (auto simp add: tagLoop.simps [of st t c] Let_def)
          from Some have "st2 = st1\<lparr>remote_tags := ?cur # remote_tags st1\<rparr>"
            by (simp add: gitPush_def split: if_splits)
          with res cr show ?thesis
            by (simp add: st1)
        qed
      qed
    qed
  qed
qed

lemma createAndPushTag_store:
  assumes "getTagVersion (envFile st) = Some version"
  shows "fst (snd (createAndPushTag st)) =
           st\<lparr>local_tags := rev (filter (creatable st) (snd (snd (createAndPushTag st))))
                              @ local_tags st,
              remote_tags := (case fst (createAndPushTag st) of
                                Returns tag \<Rightarrow> tag # remote_tags st
                              | Exits code \<Rightarrow> remote_tags st)\<rparr>"
proof -
  obtain r st' tried where rec: "tagLoop st (''v'' @ version) 0 = (r, st', tried)"
    by (cases "tagLoop st (''v'' @ version) 0") auto
  from tagLoop_store [OF rec] assms rec show ?thesis
    by (cases r) (simp_all add: createAndPushTag_def)
qed

section \<open>Facts about the example states\<close>

lemmas version_eval =
  version_of_def semver_def digits_def digit_def decimal_def digit_val_def

lemma safe_small:
  "safe (1, 5, 3)" "safe (1, 4, 0)" "safe (2, 0, 0)" "safe (1, 0, 0)" "safe (2, 5, 1)"
  "safe (1, 0, 9)" "safe (2, 3, 4)"
  by (simp_all add: safe_def max_safe_def)

lemma version_of_examples:
  "version_of ''1.5.3'' = Some (1, 5, 3)"
  "version_of ''1.4.0'' = Some (1, 4, 0)"
  "version_of ''2.0.0'' = Some (2, 0, 0)"
  "version_of ''1.0.0'' = Some (1, 0, 0)"
  "version_of ''2.5.1'' = Some (2, 5, 1)"
  "version_of ''1.0.9'' = Some (1, 0, 9)"
  "version_of ''2.3.4'' = Some (2, 3, 4)"
  by (simp_all add: version_eval)

lemma version_of_rounded_examples:
  "version_of ''1.9007199254740992.0'' = Some (1, 9007199254740992, 0)"
  "version_of ''1.9007199254740993.7'' = Some (1, 9007199254740993, 7)"
  "version_of ''9007199254740992.4.0'' = Some (9007199254740992, 4, 0)"
  "version_of ''9007199254740993.5.0'' = Some (9007199254740993, 5, 0)"
  "version_of ''1.0.9007199254740992'' = Some (1, 0, 9007199254740992)"
  "version_of ''2.9007199254740993.1'' = Some (2, 9007199254740993, 1)"
  by (simp_all add: version_eval)

lemmas round_double_examples =
  round_double_two_53 round_double_two_53_plus_1 round_double_safe max_safe_def

lemma components_examples:
  "components ''1.0.0'' = Computed [Num 1, Num 0, Num 0]"
  "components ''2.3.4'' = Computed [Num 2, Num 3, Num 4]"
  "components ''1.0.9'' = Computed [Num 1, Num 0, Num 9]"
  "components ''1.9007199254740992.0'' = Computed [Num 1, Num 9007199254740992, Num 0]"
  "components ''1.9007199254740993.7'' = Computed [Num 1, Num 9007199254740992, Num 7]"
  "components ''9007199254740992.4.0'' = Computed [Num 9007199254740992, Num 4, Num 0]"
  "components ''9007199254740993.5.0'' = Computed [Num 9007199254740992, Num 5, Num 0]"
  "components ''1.0.9007199254740992'' = Computed [Num 1, Num 0, Num 9007199254740992]"
  "components ''2.9007199254740993.1'' = Computed [Num 2, Num 9007199254740992, Num 1]"
  using version_of_examples(4,7,6) [THEN version_of_rounded]
    version_of_rounded_examples [THEN version_of_rounded]
  by (simp_all add: round_double_examples)

lemma components_short: "components ''1.2'' = Computed [Num 1, Num 2]"
  by (simp add: components_def Number_js_digits digits_def digit_def decimal_def digit_val_def
      round_double_safe max_safe_def)

lemma toString_examples:
  "toString (Num 0) = Computed ''0''"
  "toString (Num 1) = Computed ''1''"
  "toString (Num (Suc 0)) = Computed ''1''"
  "toString (Num 2) = Computed ''2''"
  "toString (Num 3) = Computed ''3''"
  "toString (Num 5) = Computed ''5''"
  "toString (Num 9) = Computed ''9''"
  "toString (Num 9007199254740992) = Computed ''9007199254740992''"
  by (simp_all add: show_nat.simps digit_char_def)


lemma hasFolderChanges_examples:
  "hasFolderChanges folder_changed"
  "hasFolderChanges folder_drift"
  "hasFolderChanges folder_short"
  "hasFolderChanges folder_rounded_patch"
  by code_simp+

section \<open>Claims\<close>







text \<open>
  C3 (amended). In a folder where the staged version is present and differs from the
  head version in some component, where the staged version is not a raised minor number
  under the same major number, and where no component of the two versions exceeds
  \<open>2^53 - 1\<close>, the staged version is accepted as a manual change: the folder is left as
  it is (nothing is written to the metadata file, nothing is staged), and the history
  log gets one entry.
\<close>

theorem manual_change_accepted:
  assumes "getStagedVersion f = Some s"
      and "version_of s = Some (sM, sm, sp)"
      and "safe (sM, sm, sp)"
      and "version_of (getHeadVersion f) = Some (hM, hm, hp)"
      and "safe (hM, hm, hp)"
      and "(sM, sm, sp) \<noteq> (hM, hm, hp)"
      and "\<not> (sM = hM \<and> hm < sm)"
  shows "processFolder folderName f hist =
         Computed (ManualChange s, f, hist @ [folderName @ '' version manually changed to '' @ s])"
proof -
  have "minorBump f (Some s) (getHeadVersion f) = Computed (None, f)"
    using handleMinor_none [OF assms(2,3,4,5,7)] by (simp add: minorBump_def)
  moreover have "s \<noteq> getHeadVersion f"
    using assms(2,4,6) by (rule version_of_differ)
  moreover have "s \<noteq> []"
    using assms(2) by (rule version_of_not_Nil)
  ultimately show ?thesis
    using assms(1) by (simp add: processFolder_def getHeadVersion_not_Nil)
qed

theorem manual_change_accepted_witness:
  "processFolder ''web'' folder_major [] =
     Computed (ManualChange ''2.0.0'', folder_major, [''web version manually changed to 2.0.0''])"
proof -
  have staged: "getStagedVersion folder_major = Some ''2.0.0''"
    by (simp add: getStagedVersion_def folder_major_def)
  have h: "version_of (getHeadVersion folder_major) = Some (1, 4, 0)"
    by (simp add: getHeadVersion_def folder_major_def version_of_examples)
  have differ: "((2 :: nat), (0 :: nat), (0 :: nat)) \<noteq> (1, 4, 0)"
    and other: "\<not> ((2 :: nat) = 1 \<and> (4 :: nat) < 0)"
    by simp_all
  from manual_change_accepted [OF staged version_of_examples(3) safe_small(3) h safe_small(2)
      differ other, of "''web''" "[]"]
  show ?thesis
    by simp
qed

text \<open>
  C3 as it is written fails where \<open>9007199254740993.5.0\<close> is staged over
  \<open>9007199254740992.4.0\<close>: the major numbers differ, but they are the same double, so
  the hook takes the raised minor number for a minor bump, writes the version
  \<open>9007199254740992.5.0\<close> and stages it.
\<close>

theorem manual_change_rounded_counterexample:
  "getStagedVersion folder_rounded_major = Some ''9007199254740993.5.0''
   \<and> getHeadVersion folder_rounded_major = ''9007199254740992.4.0''
   \<and> version_of ''9007199254740993.5.0'' = Some (9007199254740993, 5, 0)
   \<and> version_of ''9007199254740992.4.0'' = Some (9007199254740992, 4, 0)
   \<and> processFolder ''web'' folder_rounded_major [] =
       Computed
         (MinorReset ''9007199254740992.5.0'',
          folder_rounded_major\<lparr>work_file := Package (Some ''9007199254740992.5.0''),
                                index_file := Package (Some ''9007199254740992.5.0'')\<rparr>,
          [''web version: Reset patch to 0 after minor version bump: 9007199254740992.5.0''])"
proof -
  have "processFolder ''web'' folder_rounded_major [] =
       Computed
         (MinorReset ''9007199254740992.5.0'',
          folder_rounded_major\<lparr>work_file := Package (Some ''9007199254740992.5.0''),
                                index_file := Package (Some ''9007199254740992.5.0'')\<rparr>,
          [''web version: Reset patch to 0 after minor version bump: 9007199254740992.5.0''])"
    by (simp add: processFolder_def minorBump_def handleMinorVersionBump_def
        getStagedVersion_def getHeadVersion_def folder_rounded_major_def
        components_examples toString_examples template_def Let_def del: toString.simps)
  then show ?thesis
    by (simp add: getStagedVersion_def getHeadVersion_def folder_rounded_major_def
        version_of_rounded_examples)
qed

text \<open>
  C4 (amended). With the version \<open>A\<close> in the metadata file of folder A
  (\<^verbatim>\<open>back\<close>) and \<open>B\<close> in that of folder B (\<^verbatim>\<open>web\<close>), no component of the two
  above \<open>2^53 - 1\<close>, the tag version is \<open>A.minor.A.patch.B.minor.B.patch\<close>, the numbers
  in decimal; it is written to the environment file and logged. \<open>2.5.1\<close> and \<open>1.0.9\<close>
  give \<open>5.1.0.9\<close>.
\<close>

theorem tag_version_composed:
  assumes "work_file (back_folder st) = Package (Some a)"
      and "version_of a = Some (aM, am, ap)"
      and "safe (aM, am, ap)"
      and "work_file (web_folder st) = Package (Some b)"
      and "version_of b = Some (bM, bm, bp)"
      and "safe (bM, bm, bp)"
  shows "updateEnvTagVersion st =
           Computed
             (show_nat am @ ''.'' @ show_nat ap @ ''.'' @ show_nat bm @ ''.'' @ show_nat bp,
              st\<lparr>env_file :=
                   Some (writeTag (env_file st)
                          (show_nat am @ ''.'' @ show_nat ap @ ''.'' @ show_nat bm @ ''.''
                           @ show_nat bp)),
                 history := history st
                   @ [''Updated TAG_VERSION to ''
                      @ (show_nat am @ ''.'' @ show_nat ap @ ''.'' @ show_nat bm @ ''.''
                         @ show_nat bp)
                      @ '' (not committed)'']\<rparr>)"
  using getCurrentVersion_version [OF assms(1,2)] getCurrentVersion_version [OF assms(4,5)]
    tagVersion_versions [OF assms(2,3,5,6)]
  by (simp add: updateEnvTagVersion_def Let_def)

theorem tag_version_composed_witness:
  "updateEnvTagVersion repo_example =
     Computed
       (''5.1.0.9'',
        repo_example\<lparr>env_file := Some ''TAG_VERSION=5.1.0.9'',
                      history := [''Updated TAG_VERSION to 5.1.0.9 (not committed)'']\<rparr>)"
proof -
  have fileA: "work_file (back_folder repo_example) = Package (Some ''2.5.1'')"
    by (simp add: repo_example_def)
  have fileB: "work_file (web_folder repo_example) = Package (Some ''1.0.9'')"
    by (simp add: repo_example_def)
  have env: "writeTag (env_file repo_example) ''5.1.0.9'' = ''TAG_VERSION=5.1.0.9''"
    by code_simp
  have log: "history repo_example = []"
    by (simp add: repo_example_def)
  from tag_version_composed [OF fileA version_of_examples(5) safe_small(5) fileB
      version_of_examples(6) safe_small(6)]
  show ?thesis
    by (simp add: show_nat_digit digit_char_def env [simplified] log)
qed

text \<open>
  C4 as it is written fails where folder A holds \<open>2.9007199254740993.1\<close> and folder B
  holds \<open>1.0.9\<close>: the minor number of A is read as the double \<open>9007199254740992\<close>, and
  the tag version is \<open>9007199254740992.1.0.9\<close>.
\<close>

theorem tag_version_rounded_counterexample:
  "getCurrentVersion (back_folder repo_rounded) = ''2.9007199254740993.1''
   \<and> getCurrentVersion (web_folder repo_rounded) = ''1.0.9''
   \<and> version_of ''2.9007199254740993.1'' = Some (2, 9007199254740993, 1)
   \<and> version_of ''1.0.9'' = Some (1, 0, 9)
   \<and> updateEnvTagVersion repo_rounded =
       Computed
         (''9007199254740992.1.0.9'',
          repo_rounded\<lparr>env_file := Some ''TAG_VERSION=9007199254740992.1.0.9'',
                        history :=
                          [''Updated TAG_VERSION to 9007199254740992.1.0.9 (not committed)'']\<rparr>)"
proof -
  have current: "getCurrentVersion (back_folder repo_rounded) = ''2.9007199254740993.1''"
    "getCurrentVersion (web_folder repo_rounded) = ''1.0.9''"
    using version_of_rounded_examples(6) version_of_examples(6)
    by (simp_all add: getCurrentVersion_version repo_rounded_def)
  have env: "writeTag (env_file repo_rounded) ''9007199254740992.1.0.9''
             = ''TAG_VERSION=9007199254740992.1.0.9''"
    by code_simp
  have log: "history repo_rounded = []"
    by (simp add: repo_rounded_def)
  have "updateEnvTagVersion repo_rounded =
       Computed
         (''9007199254740992.1.0.9'',
          repo_rounded\<lparr>env_file := Some ''TAG_VERSION=9007199254740992.1.0.9'',
                        history :=
                          [''Updated TAG_VERSION to 9007199254740992.1.0.9 (not committed)'']\<rparr>)"
    by (simp add: updateEnvTagVersion_def tagVersion_def current components_examples
        toString_examples template_def env log Let_def del: toString.simps)
  with current show ?thesis
    by (simp add: version_of_rounded_examples version_of_examples)
qed

text \<open>
  C5 (amended). Let the prior content be given by its lines. If some line starts with
  \<^verbatim>\<open>TAG_VERSION=\<close> and no line before it contains \<^verbatim>\<open>TAG_VERSION=\<close>, then in
  that line the text up to the end of the line (or to a carriage return) becomes
  \<^verbatim>\<open>TAG_VERSION=\<close> and the new tag version, and every other line is kept. If the
  content is empty or ends with a line feed and does not contain \<^verbatim>\<open>TAG_VERSION=\<close>,
  that line is added after the last line. In both cases the white space at the
  start and at the end of the whole content is then removed. A file that does not exist
  is treated as an empty one.
\<close>

theorem tag_line_updated:
  "(split_js nl s = pre @ [tag_key @ old] @ post
      \<and> (\<forall>l \<in> set pre. \<not> includes_js l tag_key) \<longrightarrow>
    writeTag (Some s) tag =
      trim_js (join_js (pre @ [tag_key @ tag @ dropWhile (\<lambda>c. c \<noteq> cr) old] @ post)))
   \<and> (split_js nl s = pre @ [[]] \<and> \<not> includes_js s tag_key \<longrightarrow>
       writeTag (Some s) tag = trim_js (join_js (pre @ [tag_key @ tag, []])))
   \<and> writeTag None tag = writeTag (Some []) tag"
proof (intro conjI impI)
  assume "split_js nl s = pre @ [tag_key @ old] @ post
      \<and> (\<forall>l \<in> set pre. \<not> includes_js l tag_key)"
  then have "split_js nl s = pre @ [[] @ tag_key @ old] @ post
      \<and> (\<forall>l \<in> set pre. \<not> includes_js l tag_key)
      \<and> \<not> includes_js ([] @ butlast tag_key) tag_key"
    using butlast_tag_key by simp
  then have "writeTag (Some s) tag =
      trim_js (join_js (pre @ [[] @ tag_key @ tag @ dropWhile (\<lambda>c. c \<noteq> cr) old] @ post))"
    by (rule writeTag_replaces)
  then show "writeTag (Some s) tag =
      trim_js (join_js (pre @ [tag_key @ tag @ dropWhile (\<lambda>c. c \<noteq> cr) old] @ post))"
    by simp
next
  assume "split_js nl s = pre @ [[]] \<and> \<not> includes_js s tag_key"
  then show "writeTag (Some s) tag = trim_js (join_js (pre @ [tag_key @ tag, []]))"
    by (rule writeTag_appends)
next
  show "writeTag None tag = writeTag (Some []) tag"
    by (simp add: writeTag_def)
qed

theorem tag_line_updated_witness:
  "writeTag (Some env_example) ''5.1.0.9''
     = ''FOO=1'' @ nl # ''TAG_VERSION=5.1.0.9'' @ nl # ''BAR=2''
   \<and> writeTag (Some env_without_tag) ''5.1.0.9'' = ''FOO=1'' @ nl # ''TAG_VERSION=5.1.0.9''"
proof -
  have lines: "split_js nl env_example = [''FOO=1''] @ [tag_key @ ''1.0.0.0''] @ [''BAR=2'', []]"
    by code_simp
  have before: "\<forall>l \<in> set [''FOO=1'']. \<not> includes_js l tag_key"
    by code_simp
  have result: "trim_js (join_js ([''FOO=1''] @ [tag_key @ ''5.1.0.9'' @ dropWhile (\<lambda>c. c \<noteq> cr) ''1.0.0.0'']
                  @ [''BAR=2'', []]))
                = ''FOO=1'' @ nl # ''TAG_VERSION=5.1.0.9'' @ nl # ''BAR=2''"
    by code_simp
  have lines': "split_js nl env_without_tag = [''FOO=1''] @ [[]]"
    by code_simp
  have absent: "\<not> includes_js env_without_tag tag_key"
    by code_simp
  have result': "trim_js (join_js ([''FOO=1''] @ [tag_key @ ''5.1.0.9'', []]))
                 = ''FOO=1'' @ nl # ''TAG_VERSION=5.1.0.9''"
    by code_simp
  from tag_line_updated [where s = env_example and pre = "[''FOO=1'']"
      and old = "''1.0.0.0''" and post = "[''BAR=2'', []]" and tag = "''5.1.0.9''"]
    lines before result
  have "writeTag (Some env_example) ''5.1.0.9''
          = ''FOO=1'' @ nl # ''TAG_VERSION=5.1.0.9'' @ nl # ''BAR=2''"
    by metis
  moreover
  from tag_line_updated [where s = env_without_tag and pre = "[''FOO=1'']" and tag = "''5.1.0.9''"]
    lines' absent result'
  have "writeTag (Some env_without_tag) ''5.1.0.9'' = ''FOO=1'' @ nl # ''TAG_VERSION=5.1.0.9''"
    by metis
  ultimately show ?thesis
    by (rule conjI)
qed

text \<open>
  C5 as it is written fails on a file whose first line is indented: the line
  \<open>FOO=1\<close> loses its two leading spaces.
\<close>

theorem tag_line_trimmed_counterexample:
  "writeTag (Some env_indented) ''5.1.0.9'' = ''FOO=1'' @ nl # ''TAG_VERSION=5.1.0.9''
   \<and> ''  FOO=1'' \<in> set (split_js nl env_indented)
   \<and> ''  FOO=1'' \<notin> set (split_js nl (writeTag (Some env_indented) ''5.1.0.9''))"
  by code_simp

text \<open>
  C6. When the tag \<open>v{TagVersion}\<close> already exists, the deploy script's next candidate
  is \<open>v{TagVersion}-1\<close>, and the colliding name is neither attempted again nor
  published. No name is attempted twice. In general the published name is the base name
  with the first available suffix: the script returns a tag exactly when one of the
  candidates below the bound is available, and the tag is the first such candidate
  (the base name itself, then the suffixes \<open>-1\<close>, \<open>-2\<close>, ... in order). The tag
  store it leaves holds the returned tag among the local tags and as the one new remote
  tag; when no tag is returned, the remote tags are as they were. The local tags are
  those the store had, with every candidate that the script created put in front, the
  ones whose push failed included; nothing else of the store changes.
\<close>

theorem first_available_suffix:
  assumes "getTagVersion (envFile st) = Some version"
  shows "(tagExists st (''v'' @ version) \<longrightarrow>
            take 2 (snd (snd (createAndPushTag st))) = [''v'' @ version, ''v'' @ version @ ''-1'']
            \<and> ''v'' @ version \<notin> set (tl (snd (snd (createAndPushTag st))))
            \<and> fst (createAndPushTag st) \<noteq> Returns (''v'' @ version))
       \<and> distinct (snd (snd (createAndPushTag st)))
       \<and> (\<forall>tag. fst (createAndPushTag st) = Returns tag \<longleftrightarrow>
            (\<exists>k < maxAttempts. tag = candidate (''v'' @ version) k \<and> available st tag
                 \<and> (\<forall>j < k. \<not> available st (candidate (''v'' @ version) j))))
       \<and> (\<forall>tag. fst (createAndPushTag st) = Returns tag \<longrightarrow>
            tag \<in> set (local_tags (fst (snd (createAndPushTag st))))
            \<and> remote_tags (fst (snd (createAndPushTag st))) = tag # remote_tags st)
       \<and> ((\<forall>tag. fst (createAndPushTag st) \<noteq> Returns tag) \<longrightarrow>
            remote_tags (fst (snd (createAndPushTag st))) = remote_tags st)
       \<and> fst (snd (createAndPushTag st)) =
            st\<lparr>local_tags := rev (filter (creatable st) (snd (snd (createAndPushTag st))))
                               @ local_tags st,
               remote_tags := (case fst (createAndPushTag st) of
                                 Returns tag \<Rightarrow> tag # remote_tags st
                               | Exits code \<Rightarrow> remote_tags st)\<rparr>"
proof -
  let ?t = "''v'' @ version"
  let ?r = "fst (createAndPushTag st)"
  let ?st' = "fst (snd (createAndPushTag st))"
  let ?tried = "snd (snd (createAndPushTag st))"
  note store = createAndPushTag_store [OF assms]
  from createAndPushTag_cases [OF assms]
  consider (published) k where "k < maxAttempts" "?r = Returns (candidate ?t k)"
      "available st (candidate ?t k)" "\<forall>j < k. \<not> available st (candidate ?t j)"
      "?tried = map (candidate ?t) [0..<Suc k]"
    | (exhausted) "?r = Exits 1" "\<forall>j < maxAttempts. \<not> available st (candidate ?t j)"
      "?tried = map (candidate ?t) [0..<maxAttempts]"
    by blast
  then show ?thesis
  proof cases
    case published
    have first: "\<forall>tag. ?r = Returns tag \<longleftrightarrow>
            (\<exists>k' < maxAttempts. tag = candidate ?t k' \<and> available st tag
                 \<and> (\<forall>j < k'. \<not> available st (candidate ?t j)))"
    proof (intro allI iffI)
      fix tag
      assume "?r = Returns tag"
      with published(2) have "tag = candidate ?t k" by simp
      with published show "\<exists>k' < maxAttempts. tag = candidate ?t k' \<and> available st tag
                 \<and> (\<forall>j < k'. \<not> available st (candidate ?t j))"
        by blast
    next
      fix tag
      assume "\<exists>k' < maxAttempts. tag = candidate ?t k' \<and> available st tag
                 \<and> (\<forall>j < k'. \<not> available st (candidate ?t j))"
      then obtain k' where k': "tag = candidate ?t k'" "available st (candidate ?t k')"
          "\<forall>j < k'. \<not> available st (candidate ?t j)"
        by blast
      have "\<not> k < k'" using k'(3) published(3) by blast
      moreover have "\<not> k' < k" using published(4) k'(2) by blast
      ultimately have "k' = k" by simp
      with k'(1) published(2) show "?r = Returns tag" by simp
    qed
    have collision: "tagExists st ?t \<longrightarrow>
        take 2 ?tried = [?t, ''v'' @ version @ ''-1''] \<and> ?t \<notin> set (tl ?tried)
        \<and> ?r \<noteq> Returns ?t"
    proof
      assume "tagExists st ?t"
      then have "\<not> available st (candidate ?t 0)"
        by (simp add: candidate_0 available_def)
      with published(3) have k: "0 < k" by (cases k) auto
      then have "candidate ?t k \<noteq> candidate ?t 0"
        by (simp add: candidate_inject)
      moreover have "2 \<le> Suc k" using k by simp
      ultimately show "take 2 ?tried = [?t, ''v'' @ version @ ''-1''] \<and> ?t \<notin> set (tl ?tried)
          \<and> ?r \<noteq> Returns ?t"
        using published(2,5) take_2_candidates [of "Suc k" ?t] base_not_retried [of ?t "Suc k"]
        by (simp add: candidate_0 del: upt_Suc)
    qed
    have "creatable st (candidate ?t k)"
      using published(3) by (simp add: available_def creatable_def)
    moreover have "candidate ?t k \<in> set ?tried"
      by (simp add: published(5))
    ultimately have "candidate ?t k \<in> set (local_tags ?st')"
      by (subst store) simp
    moreover have "remote_tags ?st' = candidate ?t k # remote_tags st"
      by (subst store) (simp add: published(2))
    ultimately have pushed: "\<forall>tag. ?r = Returns tag \<longrightarrow>
            tag \<in> set (local_tags ?st') \<and> remote_tags ?st' = tag # remote_tags st"
      using published(2) by simp
    have unpushed: "(\<forall>tag. ?r \<noteq> Returns tag) \<longrightarrow> remote_tags ?st' = remote_tags st"
      using published(2) by simp
    have once: "distinct ?tried"
      using published(5) distinct_candidates [of ?t "Suc k"] by (simp del: upt_Suc)
    show ?thesis
      by (intro conjI) (rule collision once first pushed unpushed store)+
  next
    case exhausted
    have first: "\<forall>tag. ?r = Returns tag \<longleftrightarrow>
            (\<exists>k' < maxAttempts. tag = candidate ?t k' \<and> available st tag
                 \<and> (\<forall>j < k'. \<not> available st (candidate ?t j)))"
    proof (intro allI)
      fix tag
      have a: "?r \<noteq> Returns tag"
        using exhausted(1) by simp
      have b: "\<not> (\<exists>k' < maxAttempts. tag = candidate ?t k' \<and> available st tag
                 \<and> (\<forall>j < k'. \<not> available st (candidate ?t j)))"
        using exhausted(2) by blast
      from a b show "?r = Returns tag \<longleftrightarrow>
            (\<exists>k' < maxAttempts. tag = candidate ?t k' \<and> available st tag
                 \<and> (\<forall>j < k'. \<not> available st (candidate ?t j)))"
        by (simp only: simp_thms)
    qed
    have "2 \<le> maxAttempts" by (simp add: maxAttempts_def)
    then have collision: "tagExists st ?t \<longrightarrow>
        take 2 ?tried = [?t, ''v'' @ version @ ''-1''] \<and> ?t \<notin> set (tl ?tried)
        \<and> ?r \<noteq> Returns ?t"
      using exhausted(1,3) take_2_candidates [of maxAttempts ?t] base_not_retried [of ?t maxAttempts]
      by simp
    have pushed: "\<forall>tag. ?r = Returns tag \<longrightarrow>
            tag \<in> set (local_tags ?st') \<and> remote_tags ?st' = tag # remote_tags st"
      using exhausted(1) by simp
    have "remote_tags ?st' = remote_tags st"
      by (subst store) (simp add: exhausted(1))
    then have unpushed: "(\<forall>tag. ?r \<noteq> Returns tag) \<longrightarrow> remote_tags ?st' = remote_tags st"
      by (rule impI)
    have once: "distinct ?tried"
      using exhausted(3) distinct_candidates [of ?t maxAttempts] by simp
    show ?thesis
      by (intro conjI) (rule collision once first pushed unpushed store)+
  qed
qed

theorem first_available_suffix_witness:
  "take 2 (snd (snd (createAndPushTag store_collision))) = [''v1.0.0'', ''v1.0.0-1'']
   \<and> ''v1.0.0'' \<notin> set (tl (snd (snd (createAndPushTag store_collision))))
   \<and> fst (createAndPushTag store_collision) = Returns ''v1.0.0-1''
   \<and> ''v1.0.0-1'' \<in> set (local_tags (fst (snd (createAndPushTag store_collision))))
   \<and> remote_tags (fst (snd (createAndPushTag store_collision))) = [''v1.0.0-1'', ''v1.0.0'']
   \<and> remote_tags (fst (snd (createAndPushTag store_full))) = [''v1.0.0'']"
proof -
  have v: "getTagVersion (envFile store_collision) = Some ''1.0.0''"
    "getTagVersion (envFile store_full) = Some ''1.0.0''"
    by code_simp+
  have e: "tagExists store_collision (''v'' @ ''1.0.0'')"
    by code_simp
  have r: "fst (createAndPushTag store_collision) = Returns ''v1.0.0-1''"
    by code_simp
  have before: "remote_tags store_collision = [''v1.0.0'']"
    "remote_tags store_full = [''v1.0.0'']"
    by (simp_all add: store_collision_def store_full_def)
  have taken: "\<not> available store_full name" for name
    by (simp add: available_def tagExists_def store_full_def)
  note published = first_available_suffix [OF v(1)]
  note exhausted = first_available_suffix [OF v(2)]
  from published have "tagExists store_collision (''v'' @ ''1.0.0'') \<longrightarrow>
          take 2 (snd (snd (createAndPushTag store_collision)))
            = [''v'' @ ''1.0.0'', ''v'' @ ''1.0.0'' @ ''-1'']
          \<and> ''v'' @ ''1.0.0'' \<notin> set (tl (snd (snd (createAndPushTag store_collision))))
          \<and> fst (createAndPushTag store_collision) \<noteq> Returns (''v'' @ ''1.0.0'')"
    by (rule conjunct1)
  with e have collision:
    "take 2 (snd (snd (createAndPushTag store_collision))) = [''v1.0.0'', ''v1.0.0-1'']
     \<and> ''v1.0.0'' \<notin> set (tl (snd (snd (createAndPushTag store_collision))))"
    by simp
  from published have "\<forall>tag. fst (createAndPushTag store_collision) = Returns tag \<longrightarrow>
            tag \<in> set (local_tags (fst (snd (createAndPushTag store_collision))))
            \<and> remote_tags (fst (snd (createAndPushTag store_collision)))
                = tag # remote_tags store_collision"
    by (elim conjE)
  with r before(1) have pushed:
    "''v1.0.0-1'' \<in> set (local_tags (fst (snd (createAndPushTag store_collision))))
     \<and> remote_tags (fst (snd (createAndPushTag store_collision))) = [''v1.0.0-1'', ''v1.0.0'']"
    by simp
  from exhausted have "\<forall>tag. fst (createAndPushTag store_full) = Returns tag \<longleftrightarrow>
            (\<exists>k < maxAttempts. tag = candidate (''v'' @ ''1.0.0'') k \<and> available store_full tag
                 \<and> (\<forall>j < k. \<not> available store_full (candidate (''v'' @ ''1.0.0'') j)))"
    by (elim conjE)
  with taken have none: "\<forall>tag. fst (createAndPushTag store_full) \<noteq> Returns tag"
    by simp
  from exhausted have "(\<forall>tag. fst (createAndPushTag store_full) \<noteq> Returns tag) \<longrightarrow>
            remote_tags (fst (snd (createAndPushTag store_full))) = remote_tags store_full"
    by (elim conjE)
  with none before(2) have "remote_tags (fst (snd (createAndPushTag store_full))) = [''v1.0.0'']"
    by simp
  with collision pushed r show ?thesis
    by simp
qed

text \<open>
  C7. The deploy script attempts at most 100 tags: the candidates in order, each
  unavailable one (a collision or a failed command) taking one attempt. When none of the
  100 candidates is available the process exits with the code 1, and it never exits with
  another code.
\<close>

theorem attempts_bounded:
  "length (snd (snd (createAndPushTag st))) \<le> 100
   \<and> (\<forall>code. fst (createAndPushTag st) = Exits code \<longrightarrow> code = 1)
   \<and> (\<forall>version. getTagVersion (envFile st) = Some version \<longrightarrow>
        (\<exists>n \<le> 100. snd (snd (createAndPushTag st)) = map (candidate (''v'' @ version)) [0..<n]
            \<and> (\<forall>j < n - 1. \<not> available st (candidate (''v'' @ version) j)))
        \<and> ((\<forall>j < 100. \<not> available st (candidate (''v'' @ version) j)) \<longrightarrow>
             fst (createAndPushTag st) = Exits 1 \<and> length (snd (snd (createAndPushTag st))) = 100))"
proof (cases "getTagVersion (envFile st)")
  case None
  then show ?thesis by (simp add: createAndPushTag_def)
next
  case (Some version)
  from createAndPushTag_cases [OF Some] show ?thesis
  proof (elim disjE exE conjE)
    fix k
    assume k: "k < maxAttempts" "fst (createAndPushTag st) = Returns (candidate (''v'' @ version) k)"
      "available st (candidate (''v'' @ version) k)"
      "\<forall>j<k. \<not> available st (candidate (''v'' @ version) j)"
      "snd (snd (createAndPushTag st)) = map (candidate (''v'' @ version)) [0..<Suc k]"
    have "\<exists>n \<le> 100. snd (snd (createAndPushTag st)) = map (candidate (''v'' @ version)) [0..<n]
            \<and> (\<forall>j < n - 1. \<not> available st (candidate (''v'' @ version) j))"
      using k by (intro exI [of _ "Suc k"]) (simp add: maxAttempts_def)
    with k Some show ?thesis
      by (auto simp add: maxAttempts_def simp del: upt_Suc)
  next
    assume e: "fst (createAndPushTag st) = Exits 1"
      "\<forall>j<maxAttempts. \<not> available st (candidate (''v'' @ version) j)"
      "snd (snd (createAndPushTag st)) = map (candidate (''v'' @ version)) [0..<maxAttempts]"
    have "\<exists>n \<le> 100. snd (snd (createAndPushTag st)) = map (candidate (''v'' @ version)) [0..<n]
            \<and> (\<forall>j < n - 1. \<not> available st (candidate (''v'' @ version) j))"
      using e by (intro exI [of _ 100]) (simp add: maxAttempts_def)
    with e Some show ?thesis
      by (auto simp add: maxAttempts_def)
  qed
qed

theorem attempts_bounded_witness:
  "fst (createAndPushTag store_full) = Exits 1
   \<and> length (snd (snd (createAndPushTag store_full))) = 100"
proof -
  have v: "getTagVersion (envFile store_full) = Some ''1.0.0''"
    by code_simp
  have full: "\<forall>j < 100. \<not> available store_full (candidate (''v'' @ ''1.0.0'') j)"
    by (simp add: available_def tagExists_def store_full_def)
  from attempts_bounded [of store_full] v full show ?thesis
    by blast
qed

text \<open>
  C8. \<open>getCurrentVersion\<close> tests the format of the version and gives \<open>0.0.0\<close> when
  the test fails; \<open>getHeadVersion\<close> and \<open>getStagedVersion\<close> have no such test. With
  the version \<open>1.2\<close> in the metadata file, the two return \<open>1.2\<close>, which is not of the
  form \<^verbatim>\<open>\d+\.\d+\.\d+\<close>, and the hook goes on to write the version \<open>1.2.NaN\<close>.
\<close>

theorem getHeadVersion_unvalidated:
  "getHeadVersion folder_short = ''1.2''
   \<and> getStagedVersion folder_short = Some ''1.2''
   \<and> getCurrentVersion folder_short = ''0.0.0''
   \<and> \<not> semver ''1.2''
   \<and> processFolder ''web'' folder_short [] =
       Computed
         (AutoBumped ''1.2.NaN'',
          folder_short\<lparr>work_file := Package (Some ''1.2.NaN''),
                        index_file := Package (Some ''1.2.NaN'')\<rparr>,
          [''web version auto-bumped to 1.2.NaN (web files changed)''])"
proof -
  have form: "\<not> semver ''1.2''"
    by (simp add: semver_def)
  have "processFolder ''web'' folder_short [] =
       Computed
         (AutoBumped ''1.2.NaN'',
          folder_short\<lparr>work_file := Package (Some ''1.2.NaN''),
                        index_file := Package (Some ''1.2.NaN'')\<rparr>,
          [''web version auto-bumped to 1.2.NaN (web files changed)''])"
    using hasFolderChanges_examples(3)
    by (simp add: processFolder_def minorBump_def handleMinorVersionBump_def
        bumpPatchVersion_def getStagedVersion_def getHeadVersion_def folder_short_def
        components_short element_def toString_examples template_def Let_def
        del: toString.simps(4))
  with form show ?thesis
    by (simp add: getStagedVersion_def getHeadVersion_def getCurrentVersion_def
        folder_short_def)
qed

text \<open>
  C9. Under the rotation limit of 500, a log file holding 501 single-line entries is
  truncated to the empty file by \<open>manageLog\<close>, and a log file holding exactly 500
  entries is left as it is. An entry is a line without a line feed inside that is not
  blank.
\<close>

theorem manageLog_rotation:
  assumes "\<forall>e \<in> set es. nl \<notin> set e \<and> trim_js e \<noteq> []"
  shows "(length es = 501 \<longrightarrow> manageLog (Some (entries es)) 500 = (Some [], True))
       \<and> (length es = 500 \<longrightarrow> manageLog (Some (entries es)) 500 = (Some (entries es), False))"
  using filter_entries [OF assms] by (simp add: manageLog_def)

theorem manageLog_rotation_witness:
  "manageLog (Some (entries (replicate 501 entry_example))) 500 = (Some [], True)
   \<and> manageLog (Some (entries (replicate 500 entry_example))) 500
       = (Some (entries (replicate 500 entry_example)), False)"
  using manageLog_rotation [of "replicate 501 entry_example"]
        manageLog_rotation [of "replicate 500 entry_example"]
  by (simp add: entry_example_def nl_def trim_js_def white_def)

text \<open>
  C10 (amended). The two publishers agree where no tag version can be read (both fail)
  and where the base name \<open>v{TagVersion}\<close> is available: both publish it and leave the
  same tag store.
\<close>

theorem publishers_agree:
  "(getTagVersion (envFile st) = None \<longrightarrow>
      fst (createAndPushTag st) = Exits 1
      \<and> fst (createAndPushTag_hook st) = Inl TagVersionNotFound)
   \<and> (\<forall>version. getTagVersion (envFile st) = Some version \<and> available st (''v'' @ version) \<longrightarrow>
        fst (createAndPushTag st) = Returns (''v'' @ version)
        \<and> fst (createAndPushTag_hook st) = Inr (''v'' @ version)
        \<and> fst (snd (createAndPushTag st)) = snd (createAndPushTag_hook st))"
proof (intro conjI allI impI)
  assume "getTagVersion (envFile st) = None"
  then show "fst (createAndPushTag st) = Exits 1"
    and "fst (createAndPushTag_hook st) = Inl TagVersionNotFound"
    by (simp_all add: createAndPushTag_def createAndPushTag_hook_def)
next
  fix version
  assume a: "getTagVersion (envFile st) = Some version \<and> available st (''v'' @ version)"
  let ?t = "''v'' @ version"
  let ?st2 = "st\<lparr>local_tags := ?t # local_tags st, remote_tags := ?t # remote_tags st\<rparr>"
  from a have fresh: "\<not> tagExists st ?t" "?t \<notin> set (local_tags st)"
      "\<not> create_fails st ?t" "\<not> push_fails st ?t"
    by (simp_all add: available_def tagExists_def)
  then have tag: "gitTag st ?t = Some (st\<lparr>local_tags := ?t # local_tags st\<rparr>)"
    and push: "gitPush (st\<lparr>local_tags := ?t # local_tags st\<rparr>) ?t = Some ?st2"
    by (simp_all add: gitTag_def gitPush_def)
  have loop: "tagLoop st ?t 0 = (Some ?t, ?st2, [?t])"
    using fresh(1) tag push
    by (simp add: tagLoop.simps [of st ?t 0] maxAttempts_def candidate_0 Let_def del: append.simps)
  have deploy: "createAndPushTag st = (Returns ?t, ?st2, [?t])"
    using a loop by (simp add: createAndPushTag_def del: append.simps)
  have hook: "createAndPushTag_hook st = (Inr ?t, ?st2)"
    using a fresh(2) tag push listed_after_push [where st = "st\<lparr>local_tags := ?t # local_tags st\<rparr>" and t = ?t
        and ts = "remote_tags st"]
    by (simp add: createAndPushTag_hook_def tagListed_def Let_def del: append.simps)
  show "fst (createAndPushTag st) = Returns ?t"
    and "fst (createAndPushTag_hook st) = Inr ?t"
    and "fst (snd (createAndPushTag st)) = snd (createAndPushTag_hook st)"
    by (simp_all add: deploy hook del: append.simps)
qed

theorem publishers_agree_witness:
  "fst (createAndPushTag store_fresh) = Returns ''v1.0.0''
   \<and> fst (createAndPushTag_hook store_fresh) = Inr ''v1.0.0''
   \<and> fst (snd (createAndPushTag store_fresh)) = snd (createAndPushTag_hook store_fresh)
   \<and> fst (createAndPushTag (store_fresh\<lparr>envFile := None\<rparr>)) = Exits 1
   \<and> fst (createAndPushTag_hook (store_fresh\<lparr>envFile := None\<rparr>)) = Inl TagVersionNotFound"
proof -
  have v: "getTagVersion (envFile store_fresh) = Some ''1.0.0''"
    by code_simp
  have a: "available store_fresh (''v'' @ ''1.0.0'')"
    by code_simp
  have missing: "getTagVersion (envFile (store_fresh\<lparr>envFile := None\<rparr>)) = None"
    by (simp add: getTagVersion_def)
  from publishers_agree [of store_fresh] v a
  have "fst (createAndPushTag store_fresh) = Returns ''v1.0.0''
   \<and> fst (createAndPushTag_hook store_fresh) = Inr ''v1.0.0''
   \<and> fst (snd (createAndPushTag store_fresh)) = snd (createAndPushTag_hook store_fresh)"
    by simp
  moreover
  from publishers_agree [of "store_fresh\<lparr>envFile := None\<rparr>"] missing
  have "fst (createAndPushTag (store_fresh\<lparr>envFile := None\<rparr>)) = Exits 1
   \<and> fst (createAndPushTag_hook (store_fresh\<lparr>envFile := None\<rparr>)) = Inl TagVersionNotFound"
    by simp
  ultimately show ?thesis
    by simp
qed

text \<open>
  C10 as it is written fails where the base tag exists: the deploy script publishes
  \<open>v1.0.0-1\<close>, the hook fails with "already exists".
\<close>

theorem publishers_differ_counterexample:
  "fst (createAndPushTag store_collision) = Returns ''v1.0.0-1''
   \<and> fst (createAndPushTag_hook store_collision) = Inl (TagAlreadyExists ''v1.0.0'')"
  by code_simp

end
